theory Spec2Isabelle
  imports Main
begin

section \<open>The exception (throw/catch) mechanism of GDB: \<^verbatim>\<open>gdb/exceptions.c\<close>\<close>

text \<open>
  The file implements non-local control transfer with \<^verbatim>\<open>sigsetjmp\<close> and
  \<^verbatim>\<open>siglongjmp\<close>. The embedding makes control explicit: every function takes the
  process state and returns the new one together with the way it ended, either a
  returned value (\<open>Inr\<close>) or one of the exits that do not return to the caller
  (\<open>Inl\<close>).
\<close>

subsection \<open>Declarations of the headers\<close>

text \<open>
  Modelled from the spec: \<^verbatim>\<open>enum return_reason\<close>, \<^verbatim>\<open>RETURN_MASK\<close> and
  \<^verbatim>\<open>return_mask\<close> are declared in \<^verbatim>\<open>defs.h\<close>, which is not part of the sources at hand.
  The spec gives a reason as an integer, 0 for none and negative for abnormal, with
  quit/interrupt distinct from error, and the mask as a bitmask of reason codes. The
  values are those of GDB's header: \<^verbatim>\<open>RETURN_QUIT = -2\<close>, \<^verbatim>\<open>RETURN_ERROR = -1\<close> and
  \<^verbatim>\<open>RETURN_MASK(reason) = (1 << (int)(-reason))\<close>. The shift count is the negated
  reason; for a positive reason C leaves the shift undefined, and the definition
  below takes the count 0 there.
\<close>

definition RETURN_QUIT :: int where
  "RETURN_QUIT = - 2"

definition RETURN_ERROR :: int where
  "RETURN_ERROR = - 1"

definition RETURN_MASK :: "int \<Rightarrow> int" where
  "RETURN_MASK reason = push_bit (nat (- reason)) 1"

definition RETURN_MASK_QUIT :: int where
  "RETURN_MASK_QUIT = RETURN_MASK RETURN_QUIT"

definition RETURN_MASK_ERROR :: int where
  "RETURN_MASK_ERROR = RETURN_MASK RETURN_ERROR"

definition RETURN_MASK_ALL :: int where
  "RETURN_MASK_ALL = or RETURN_MASK_QUIT RETURN_MASK_ERROR"

text \<open>
  Modelled from the spec: \<^verbatim>\<open>enum errors\<close> of \<^verbatim>\<open>exceptions.h\<close>, an open enumeration
  of error kinds with at least a generic one; \<^verbatim>\<open>NO_ERROR\<close> is its zero.
\<close>

datatype errors = NO_ERROR | GENERIC_ERROR | OTHER_ERROR nat

text \<open>\<^verbatim>\<open>struct exception\<close>; a \<^verbatim>\<open>char *\<close> is \<open>None\<close> when it is \<^verbatim>\<open>NULL\<close>.\<close>

record exception =
  reason :: int
  error :: errors
  message :: "string option"

definition exception_none :: exception where
  "exception_none = \<lparr>reason = 0, error = NO_ERROR, message = None\<rparr>"

subsection \<open>Catchers\<close>

datatype catcher_state =
  CATCHER_CREATED | CATCHER_RUNNING | CATCHER_RUNNING_1 | CATCHER_ABORTING

datatype catcher_action = CATCH_ITER | CATCH_ITER_1 | CATCH_THROWING

type_synonym ui_out = nat
type_synonym cleanup = nat

datatype ui_file = gdb_stdout | gdb_stderr

text \<open>
  \<^verbatim>\<open>struct catcher\<close>. The jump buffer \<open>buf\<close> is known by the address of the catcher
  that holds it; \<open>exception\<close> is the address of the status buffer of the handler, a
  local variable of the Catch primitive that made the catcher. The back link
  \<^verbatim>\<open>prev\<close> is the rest of the list \<open>current_catcher\<close>.
\<close>

record catcher =
  state :: catcher_state
  buf :: nat
  exception :: nat
  mask_c :: int
  saved_uiout :: ui_out
  saved_cleanup_chain :: "cleanup list"

text \<open>
  What the file does to its collaborators, in program order: stores to their global
  variables and calls of their functions.
\<close>

datatype event =
    Store_quit_flag int
  | Store_immediate_quit int
  | Store_uiout ui_out
  | Call_save_cleanups
  | Call_restore_cleanups "cleanup list"
  | Call_bpstat_clear_actions
  | Call_disable_current_display
  | Call_do_cleanups "cleanup list"
  | Call_do_exec_cleanups
  | Call_do_exec_error_cleanups
  | Call_target_terminal_ours
  | Call_wrap_here
  | Call_gdb_flush ui_file
  | Call_annotate_error_begin
  | Call_fputs_filtered string ui_file
  | Call_ui_file_write ui_file string
  | Call_fprintf_filtered ui_file string
  | Call_annotate_quit
  | Call_annotate_error

text \<open>
  The process state: \<^verbatim>\<open>current_catcher\<close> is the linked list of catchers, top first,
  \<open>[]\<close> for \<^verbatim>\<open>NULL\<close>; \<open>exception_mem\<close> holds the status buffers by address and
  \<open>gdberrmsg_mem\<close> the \<^verbatim>\<open>char *\<close> variables that callers pass by address, each with
  the text it points to: what \<^verbatim>\<open>xstrdup\<close> stores there is a copy of its own, while the
  message of an exception built by \<^verbatim>\<open>throw_it\<close> is the text of \<^verbatim>\<open>last_message\<close>.
\<close>

record gdb_state =
  current_catcher :: "catcher list"
  exception_mem :: "nat \<Rightarrow> exception"
  gdberrmsg_mem :: "nat \<Rightarrow> string option"
  last_message :: "string option"
  uiout :: ui_out
  cleanup_chain :: "cleanup list"
  quit_flag :: int
  immediate_quit :: int
  target_can_async_p :: bool
  target_executing :: int
  sync_execution :: int
  trace :: "event list"

text \<open>
  The ways a call ends without returning: \<^verbatim>\<open>siglongjmp\<close> to a jump buffer with a
  value, \<^verbatim>\<open>internal_error\<close> with its line and message, and the dereference of a null
  \<^verbatim>\<open>current_catcher\<close>, which C leaves undefined.
\<close>

datatype exit =
    Longjmp nat int
  | Internal_error nat string
  | Null_deref

type_synonym 'a result = "(exit + 'a) \<times> gdb_state"

definition log :: "event \<Rightarrow> gdb_state \<Rightarrow> gdb_state" where
  "log ev s = s\<lparr>trace := trace s @ [ev]\<rparr>"

subsection \<open>The cleanup registry\<close>

text \<open>
  Modelled from the spec: the cleanup chain of \<^verbatim>\<open>utils.c\<close> is not part of the sources
  at hand. \<^verbatim>\<open>save_cleanups\<close> hands out the current chain as the token and starts an
  empty one, \<^verbatim>\<open>restore_cleanups\<close> puts a token back, and \<^verbatim>\<open>do_cleanups (ALL_CLEANUPS)\<close>
  runs and discards every cleanup of the current chain.
\<close>

definition save_cleanups :: "gdb_state \<Rightarrow> cleanup list \<times> gdb_state" where
  "save_cleanups s = (cleanup_chain s, log Call_save_cleanups (s\<lparr>cleanup_chain := []\<rparr>))"

definition restore_cleanups :: "cleanup list \<Rightarrow> gdb_state \<Rightarrow> gdb_state" where
  "restore_cleanups chain s = log (Call_restore_cleanups chain) (s\<lparr>cleanup_chain := chain\<rparr>)"

definition do_cleanups_ALL :: "gdb_state \<Rightarrow> gdb_state" where
  "do_cleanups_ALL s = log (Call_do_cleanups (cleanup_chain s)) (s\<lparr>cleanup_chain := []\<rparr>)"

subsection \<open>Pushing and popping\<close>

text \<open>
  \<^verbatim>\<open>XZALLOC\<close> gives an address that no live catcher has.
\<close>

definition XZALLOC :: "gdb_state \<Rightarrow> nat" where
  "XZALLOC s = Suc (fold max (map buf (current_catcher s)) 0)"

definition catcher_init :: "ui_out \<Rightarrow> nat \<Rightarrow> int \<Rightarrow> gdb_state \<Rightarrow> nat \<times> gdb_state" where
  "catcher_init func_uiout exception' mask' s =
     (let new_catcher = XZALLOC s;
          s1 = s\<lparr>exception_mem := (exception_mem s)
                 (exception' := \<lparr>reason = 0, error = NO_ERROR, message = None\<rparr>)\<rparr>;
          saved_uiout' = uiout s1;
          s2 = log (Store_uiout func_uiout) (s1\<lparr>uiout := func_uiout\<rparr>);
          (saved_cleanup_chain', s3) = save_cleanups s2;
          s4 = s3\<lparr>current_catcher :=
                   \<lparr>state = CATCHER_CREATED, buf = new_catcher, exception = exception',
                    mask_c = mask', saved_uiout = saved_uiout',
                    saved_cleanup_chain = saved_cleanup_chain'\<rparr> # current_catcher s3\<rparr>
      in (new_catcher, s4))"

definition catcher_pop :: "gdb_state \<Rightarrow> unit result" where
  "catcher_pop s =
     (case current_catcher s of
        [] \<Rightarrow> (Inl Null_deref, s)
      | old_catcher # prev \<Rightarrow>
          (let s1 = s\<lparr>current_catcher := prev\<rparr>;
               s2 = restore_cleanups (saved_cleanup_chain old_catcher) s1;
               s3 = log (Store_uiout (saved_uiout old_catcher))
                      (s2\<lparr>uiout := saved_uiout old_catcher\<rparr>)
           in (Inr (), s3)))"

subsection \<open>The state machine and \<^verbatim>\<open>throw_exception\<close>\<close>

text \<open>
  \<^verbatim>\<open>catcher_state_machine\<close> relays an exception that its catcher does not accept by
  calling \<^verbatim>\<open>throw_exception\<close>, which drives the machine with \<^verbatim>\<open>CATCH_THROWING\<close>. Had
  \<^verbatim>\<open>throw_exception\<close> returned there, control would reach the \<^verbatim>\<open>default\<close> label below it.
\<close>

function catcher_state_machine :: "catcher_action \<Rightarrow> gdb_state \<Rightarrow> int result"
  and throw_exception :: "exception \<Rightarrow> gdb_state \<Rightarrow> unit result"
where
  "catcher_state_machine action s =
     (case current_catcher s of
        [] \<Rightarrow> (Inl Null_deref, s)
      | c # prev \<Rightarrow>
          (case state c of
             CATCHER_CREATED \<Rightarrow>
               (case action of
                  CATCH_ITER \<Rightarrow>
                    (Inr 1, s\<lparr>current_catcher := c\<lparr>state := CATCHER_RUNNING\<rparr> # prev\<rparr>)
                | _ \<Rightarrow> (Inl (Internal_error 148 ''bad state''), s))
           | CATCHER_RUNNING \<Rightarrow>
               (case action of
                  CATCH_ITER \<Rightarrow>
                    (case catcher_pop s of
                       (Inl x, s1) \<Rightarrow> (Inl x, s1)
                     | (Inr _, s1) \<Rightarrow> (Inr 0, s1))
                | CATCH_ITER_1 \<Rightarrow>
                    (Inr 1, s\<lparr>current_catcher := c\<lparr>state := CATCHER_RUNNING_1\<rparr> # prev\<rparr>)
                | CATCH_THROWING \<Rightarrow>
                    (Inr 1, s\<lparr>current_catcher := c\<lparr>state := CATCHER_ABORTING\<rparr> # prev\<rparr>))
           | CATCHER_RUNNING_1 \<Rightarrow>
               (case action of
                  CATCH_ITER \<Rightarrow>
                    (case catcher_pop s of
                       (Inl x, s1) \<Rightarrow> (Inl x, s1)
                     | (Inr _, s1) \<Rightarrow> (Inr 0, s1))
                | CATCH_ITER_1 \<Rightarrow>
                    (Inr 0, s\<lparr>current_catcher := c\<lparr>state := CATCHER_RUNNING\<rparr> # prev\<rparr>)
                | CATCH_THROWING \<Rightarrow>
                    (Inr 1, s\<lparr>current_catcher := c\<lparr>state := CATCHER_ABORTING\<rparr> # prev\<rparr>))
           | CATCHER_ABORTING \<Rightarrow>
               (case action of
                  CATCH_ITER \<Rightarrow>
                    (let exception' = exception_mem s (exception c) in
                     if and (mask_c c) (RETURN_MASK (reason exception')) \<noteq> 0
                     then (case catcher_pop s of
                             (Inl x, s1) \<Rightarrow> (Inl x, s1)
                           | (Inr _, s1) \<Rightarrow> (Inr 0, s1))
                     else (case catcher_pop s of
                             (Inl x, s1) \<Rightarrow> (Inl x, s1)
                           | (Inr _, s1) \<Rightarrow>
                               (case throw_exception exception' s1 of
                                  (Inl x, s2) \<Rightarrow> (Inl x, s2)
                                | (Inr _, s2) \<Rightarrow> (Inl (Internal_error 205 ''bad state''), s2))))
                | _ \<Rightarrow> (Inl (Internal_error 205 ''bad state''), s))))"
| "throw_exception exception' s =
     (let s1 = log (Store_quit_flag 0) (s\<lparr>quit_flag := 0\<rparr>);
          s2 = log (Store_immediate_quit 0) (s1\<lparr>immediate_quit := 0\<rparr>);
          s3 = log Call_bpstat_clear_actions s2;
          s4 = log Call_disable_current_display s3;
          s5 = do_cleanups_ALL s4;
          s6 = (if target_can_async_p s5 \<and> target_executing s5 = 0
                then log Call_do_exec_cleanups s5 else s5);
          s7 = (if sync_execution s6 \<noteq> 0 then log Call_do_exec_error_cleanups s6 else s6)
      in case catcher_state_machine CATCH_THROWING s7 of
           (Inl x, s8) \<Rightarrow> (Inl x, s8)
         | (Inr _, s8) \<Rightarrow>
             (case current_catcher s8 of
                [] \<Rightarrow> (Inl Null_deref, s8)
              | c # prev \<Rightarrow>
                  (Inl (Longjmp (buf c) (reason exception')),
                   s8\<lparr>exception_mem := (exception_mem s8)(exception c := exception')\<rparr>)))"
  by pat_completeness auto
termination
  by (relation "measure (\<lambda>x. case x of
        Inl (action, s) \<Rightarrow> (if action = CATCH_ITER then 2 else 0)
      | Inr (e, s) \<Rightarrow> 1)") auto

declare catcher_state_machine.simps [simp del]
declare throw_exception.simps [simp del]

subsection \<open>Throwing\<close>

definition throw_reason :: "int \<Rightarrow> gdb_state \<Rightarrow> unit result" where
  "throw_reason reason' s =
     (let exception0 = \<lparr>reason = 0, error = NO_ERROR, message = None\<rparr>;
          exception1 = exception0\<lparr>reason := reason'\<rparr>
      in if reason' = RETURN_QUIT then throw_exception exception1 s
         else if reason' = RETURN_ERROR
           then throw_exception (exception1\<lparr>error := GENERIC_ERROR\<rparr>) s
         else (Inl (Internal_error 256 ''bad switch''), s))"

text \<open>
  \<^verbatim>\<open>throw_it\<close> formats its message with \<^verbatim>\<open>xstrvprintf\<close>; \<open>fmt_ap\<close> is the text that
  \<^verbatim>\<open>xstrvprintf (fmt, ap)\<close> returns.
\<close>

definition throw_it :: "int \<Rightarrow> errors \<Rightarrow> string \<Rightarrow> gdb_state \<Rightarrow> unit result" where
  "throw_it reason' error' fmt_ap s =
     (let s1 = s\<lparr>last_message := Some fmt_ap\<rparr>;
          e = \<lparr>reason = reason', error = error', message = last_message s1\<rparr>
      in throw_exception e s1)"

definition throw_verror :: "errors \<Rightarrow> string \<Rightarrow> gdb_state \<Rightarrow> unit result" where
  "throw_verror error' fmt_ap s = throw_it RETURN_ERROR error' fmt_ap s"

definition throw_vfatal :: "string \<Rightarrow> gdb_state \<Rightarrow> unit result" where
  "throw_vfatal fmt_ap s = throw_it RETURN_QUIT NO_ERROR fmt_ap s"

definition throw_error :: "errors \<Rightarrow> string \<Rightarrow> gdb_state \<Rightarrow> unit result" where
  "throw_error error' fmt_ap s = throw_it RETURN_ERROR error' fmt_ap s"

subsection \<open>Printing\<close>

text \<open>
  The loop of \<^verbatim>\<open>print_exception\<close> writes the message one line at a time: a line with
  its newline by \<^verbatim>\<open>ui_file_write\<close>, what follows the last newline by
  \<^verbatim>\<open>fputs_filtered\<close>.
\<close>

function print_exception_lines :: "ui_file \<Rightarrow> string \<Rightarrow> event list" where
  "print_exception_lines file start =
     (if CHR 0x0A \<in> set start
      then Call_ui_file_write file (takeWhile (\<lambda>ch. ch \<noteq> CHR 0x0A) start @ [CHR 0x0A])
             # print_exception_lines file (tl (dropWhile (\<lambda>ch. ch \<noteq> CHR 0x0A) start))
      else [Call_fputs_filtered start file])"
  by pat_completeness auto
termination
proof (relation "measure (\<lambda>(file, start). length start)")
  fix out :: ui_file and start :: string
  assume "CHR 0x0A \<in> set start"
  then have "dropWhile (\<lambda>ch. ch \<noteq> CHR 0x0A) start \<noteq> []"
    by simp
  then have "length (tl (dropWhile (\<lambda>ch. ch \<noteq> CHR 0x0A) start))
      < length (dropWhile (\<lambda>ch. ch \<noteq> CHR 0x0A) start)"
    by simp
  also have "\<dots> \<le> length start"
    by (rule length_dropWhile_le)
  finally show "((out, tl (dropWhile (\<lambda>ch. ch \<noteq> CHR 0x0A) start)), (out, start))
      \<in> measure (\<lambda>(file, start). length start)"
    by simp
qed simp

definition print_exception :: "ui_file \<Rightarrow> exception \<Rightarrow> gdb_state \<Rightarrow> unit result" where
  "print_exception file e s =
     (let s1 = s\<lparr>trace := trace s @
                  (case message e of None \<Rightarrow> [] | Some m \<Rightarrow> print_exception_lines file m)\<rparr>;
          s2 = log (Call_fprintf_filtered file [CHR 0x0A]) s1
      in if reason e = RETURN_QUIT then (Inr (), log Call_annotate_quit s2)
         else if reason e = RETURN_ERROR then (Inr (), log Call_annotate_error s2)
         else (Inl (Internal_error 304 ''Bad switch.''), s2))"

definition print_any_exception ::
  "ui_file \<Rightarrow> string option \<Rightarrow> exception \<Rightarrow> gdb_state \<Rightarrow> unit result" where
  "print_any_exception file prefix e s =
     (if reason e < 0 \<and> message e \<noteq> None
      then (let s1 = log Call_target_terminal_ours s;
                s2 = log Call_wrap_here s1;
                s3 = log (Call_gdb_flush gdb_stdout) s2;
                s4 = log Call_annotate_error_begin s3;
                s5 = (case prefix of
                        None \<Rightarrow> s4
                      | Some p \<Rightarrow> if p \<noteq> [] then log (Call_fputs_filtered p file) s4 else s4)
            in print_exception file e s5)
      else (Inr (), s))"

subsection \<open>Catching\<close>

text \<open>
  A protected operation is a function of the process state; it returns a value, or
  leaves by one of the exits, or does not terminate (\<open>None\<close>).

  The four Catch primitives share one loop,
  \<^verbatim>\<open>for (SIGSETJMP ((*catch)); catcher_state_machine (CATCH_ITER);) val = func (...)\<close>.
  A \<^verbatim>\<open>siglongjmp\<close> to the buffer \<open>catch\<close> resumes at the \<^verbatim>\<open>SIGSETJMP\<close>, whose value the
  loop drops, and goes on to the condition; \<open>val\<close> is volatile and keeps its value.
  A jump to another buffer leaves the primitive.
\<close>

partial_function (option) catch_loop ::
  "nat \<Rightarrow> (gdb_state \<Rightarrow> 'a result option) \<Rightarrow> 'a \<Rightarrow> gdb_state \<Rightarrow> 'a result option"
where
  "catch_loop catch func val s =
     (case catcher_state_machine CATCH_ITER s of
        (Inl (Longjmp b r), s1) \<Rightarrow>
          if b = catch then catch_loop catch func val s1 else Some (Inl (Longjmp b r), s1)
      | (Inl x, s1) \<Rightarrow> Some (Inl x, s1)
      | (Inr continue, s1) \<Rightarrow>
          if continue \<noteq> 0
          then (case func s1 of
                  None \<Rightarrow> None
                | Some (Inr v, s2) \<Rightarrow> catch_loop catch func v s2
                | Some (Inl (Longjmp b r), s2) \<Rightarrow>
                    if b = catch then catch_loop catch func val s2
                    else Some (Inl (Longjmp b r), s2)
                | Some (Inl x, s2) \<Rightarrow> Some (Inl x, s2))
          else Some (Inr val, s1))"

text \<open>
  The address of the local variable \<^verbatim>\<open>exception\<close> of a new activation of a Catch
  primitive: one that no live catcher points at.
\<close>

definition local_exception :: "gdb_state \<Rightarrow> nat" where
  "local_exception s = Suc (fold max (map exception (current_catcher s)) 0)"

definition catch_exception ::
  "ui_out \<Rightarrow> (ui_out \<Rightarrow> 'b \<Rightarrow> gdb_state \<Rightarrow> unit result option) \<Rightarrow> 'b \<Rightarrow> int
    \<Rightarrow> gdb_state \<Rightarrow> exception result option" where
  "catch_exception uiout' func func_args mask' s =
     (let exception' = local_exception s;
          (catch, s1) = catcher_init uiout' exception' mask' s
      in case catch_loop catch (func uiout' func_args) () s1 of
           None \<Rightarrow> None
         | Some (Inl x, s2) \<Rightarrow> Some (Inl x, s2)
         | Some (Inr _, s2) \<Rightarrow> Some (Inr (exception_mem s2 exception'), s2))"

text \<open>
  Modelled from the spec: \<^verbatim>\<open>gdb_assert\<close> of \<^verbatim>\<open>gdb_assert.h\<close> is not part of the sources
  at hand; a failed assertion is an internal error with the text of the condition.
\<close>

definition catch_exceptions_with_msg ::
  "ui_out \<Rightarrow> (ui_out \<Rightarrow> 'b \<Rightarrow> gdb_state \<Rightarrow> int result option) \<Rightarrow> 'b \<Rightarrow> nat option \<Rightarrow> int
    \<Rightarrow> gdb_state \<Rightarrow> int result option" where
  "catch_exceptions_with_msg uiout' func func_args gdberrmsg mask' s =
     (let exception' = local_exception s;
          (catch, s1) = catcher_init uiout' exception' mask' s
      in case catch_loop catch (func uiout' func_args) 0 s1 of
           None \<Rightarrow> None
         | Some (Inl x, s2) \<Rightarrow> Some (Inl x, s2)
         | Some (Inr val, s2) \<Rightarrow>
             (case print_any_exception gdb_stderr None (exception_mem s2 exception') s2 of
                (Inl x, s3) \<Rightarrow> Some (Inl x, s3)
              | (Inr _, s3) \<Rightarrow>
                  if \<not> val \<ge> 0 then Some (Inl (Internal_error 467 ''val >= 0''), s3)
                  else if \<not> reason (exception_mem s3 exception') \<le> 0
                    then Some (Inl (Internal_error 468 ''exception.reason <= 0''), s3)
                  else if reason (exception_mem s3 exception') < 0
                    then (case gdberrmsg of
                            None \<Rightarrow> Some (Inr (reason (exception_mem s3 exception')), s3)
                          | Some p \<Rightarrow>
                              Some (Inr (reason (exception_mem s3 exception')),
                                    s3\<lparr>gdberrmsg_mem := (gdberrmsg_mem s3)
                                         (p := message (exception_mem s3 exception'))\<rparr>))
                  else Some (Inr val, s3)))"

definition catch_exceptions ::
  "ui_out \<Rightarrow> (ui_out \<Rightarrow> 'b \<Rightarrow> gdb_state \<Rightarrow> int result option) \<Rightarrow> 'b \<Rightarrow> int
    \<Rightarrow> gdb_state \<Rightarrow> int result option" where
  "catch_exceptions uiout' func func_args mask' s =
     catch_exceptions_with_msg uiout' func func_args None mask' s"

definition catch_errors ::
  "('b \<Rightarrow> gdb_state \<Rightarrow> int result option) \<Rightarrow> 'b \<Rightarrow> string option \<Rightarrow> int
    \<Rightarrow> gdb_state \<Rightarrow> int result option" where
  "catch_errors func func_args errstring mask' s =
     (let exception' = local_exception s;
          (catch, s1) = catcher_init (uiout s) exception' mask' s
      in case catch_loop catch (func func_args) 0 s1 of
           None \<Rightarrow> None
         | Some (Inl x, s2) \<Rightarrow> Some (Inl x, s2)
         | Some (Inr val, s2) \<Rightarrow>
             (case print_any_exception gdb_stderr errstring (exception_mem s2 exception') s2 of
                (Inl x, s3) \<Rightarrow> Some (Inl x, s3)
              | (Inr _, s3) \<Rightarrow>
                  if reason (exception_mem s3 exception') \<noteq> 0 then Some (Inr 0, s3)
                  else Some (Inr val, s3)))"

definition catch_command_errors ::
  "(string option \<Rightarrow> int \<Rightarrow> gdb_state \<Rightarrow> unit result option) \<Rightarrow> string option \<Rightarrow> int \<Rightarrow> int
    \<Rightarrow> gdb_state \<Rightarrow> int result option" where
  "catch_command_errors command arg from_tty mask' s =
     (let e = local_exception s;
          (catch, s1) = catcher_init (uiout s) e mask' s
      in case catch_loop catch (command arg from_tty) () s1 of
           None \<Rightarrow> None
         | Some (Inl x, s2) \<Rightarrow> Some (Inl x, s2)
         | Some (Inr _, s2) \<Rightarrow>
             (case print_any_exception gdb_stderr None (exception_mem s2 e) s2 of
                (Inl x, s3) \<Rightarrow> Some (Inl x, s3)
              | (Inr _, s3) \<Rightarrow>
                  if reason (exception_mem s3 e) < 0 then Some (Inr 0, s3)
                  else Some (Inr 1, s3)))"

subsection \<open>Auxiliary definitions for the statements\<close>

text \<open>
  The state in which \<^verbatim>\<open>throw_exception\<close> reaches the state machine: both flags
  cleared, the breakpoint actions and the display dealt with, the cleanups run.
\<close>

definition cleaned :: "gdb_state \<Rightarrow> gdb_state" where
  "cleaned s = s\<lparr>quit_flag := 0, immediate_quit := 0, cleanup_chain := [],
      trace := trace s @ [Store_quit_flag 0, Store_immediate_quit 0, Call_bpstat_clear_actions,
        Call_disable_current_display, Call_do_cleanups (cleanup_chain s)]
        @ (if target_can_async_p s \<and> target_executing s = 0 then [Call_do_exec_cleanups] else [])
        @ (if sync_execution s \<noteq> 0 then [Call_do_exec_error_cleanups] else [])\<rparr>"

text \<open>A state whose top catcher is \<open>c\<close> in the state \<open>st\<close>, above the catchers \<open>prev\<close>.\<close>

abbreviation on_top :: "gdb_state \<Rightarrow> catcher \<Rightarrow> catcher list \<Rightarrow> catcher_state \<Rightarrow> gdb_state" where
  "on_top s c prev st \<equiv> s\<lparr>current_catcher := c\<lparr>state := st\<rparr> # prev\<rparr>"

text \<open>
  The state in which a Catch primitive that is called in \<open>s\<close> calls the protected
  operation: the catcher pushed by \<^verbatim>\<open>catcher_init\<close> and set running by the first
  \<^verbatim>\<open>CATCH_ITER\<close>.
\<close>

definition protected_entry :: "ui_out \<Rightarrow> int \<Rightarrow> gdb_state \<Rightarrow> gdb_state" where
  "protected_entry func_uiout mask' s =
     snd (catcher_state_machine CATCH_ITER
            (snd (catcher_init func_uiout (local_exception s) mask' s)))"

text \<open>A process with no catcher, one pending cleanup and both quit flags set.\<close>

definition bare_state :: gdb_state where
  "bare_state =
     \<lparr>current_catcher = [], exception_mem = (\<lambda>_. exception_none),
      gdberrmsg_mem = (\<lambda>_. None), last_message = None, uiout = 0, cleanup_chain = [5],
      quit_flag = 1, immediate_quit = 1, target_can_async_p = True, target_executing = 0,
      sync_execution = 1, trace = []\<rparr>"

text \<open>
  What the theorems ask of a protected operation. The catcher stack is private to the
  file, so an operation reaches it only through the Catch and Throw primitives. Such
  an operation, when it ends, either returns with the catchers and their status
  buffers as it found them, or has thrown: it jumps to the top catcher it found,
  which is now aborting, with the status buffers of the other catchers untouched.
  It may also abort the process. An operation that does not end is not well nested.
\<close>

definition well_nested :: "(gdb_state \<Rightarrow> 'a result option) \<Rightarrow> bool" where
  "well_nested func \<longleftrightarrow>
     (\<forall>s. case func s of
        None \<Rightarrow> False
      | Some (Inr v, s') \<Rightarrow>
          current_catcher s' = current_catcher s
          \<and> (\<forall>c \<in> set (current_catcher s).
                exception_mem s' (exception c) = exception_mem s (exception c))
      | Some (Inl (Longjmp b r), s') \<Rightarrow>
          (case current_catcher s of
             [] \<Rightarrow> False
           | c # prev \<Rightarrow>
               b = buf c \<and> current_catcher s' = c\<lparr>state := CATCHER_ABORTING\<rparr> # prev
               \<and> (\<forall>c' \<in> set prev. exception c' \<noteq> exception c \<longrightarrow>
                     exception_mem s' (exception c') = exception_mem s (exception c')))
      | Some (Inl _, s') \<Rightarrow> True)"

text \<open>The catcher that a Catch primitive called in \<open>s\<close> pushes, in the state \<open>st\<close>.\<close>

definition pushed :: "ui_out \<Rightarrow> int \<Rightarrow> gdb_state \<Rightarrow> catcher_state \<Rightarrow> catcher" where
  "pushed func_uiout mask' s st =
     \<lparr>state = st, buf = XZALLOC s, exception = local_exception s, mask_c = mask',
      saved_uiout = uiout s, saved_cleanup_chain = cleanup_chain s\<rparr>"

text \<open>
  The outcome \<open>res\<close> of a call made in \<open>s\<close> when the call ends and restores what it
  found: on return, the catchers, their status buffers, the output sink and the
  cleanup chain of \<open>s\<close>; on a jump, the jump is that of a \<^verbatim>\<open>throw_exception\<close> made in a
  state with the catchers, the sink and the chain of \<open>s\<close>.
\<close>

definition restores :: "gdb_state \<Rightarrow> 'a result option \<Rightarrow> bool" where
  "restores s res \<longleftrightarrow>
     (case res of
        None \<Rightarrow> False
      | Some (Inr v, s') \<Rightarrow>
          current_catcher s' = current_catcher s \<and> uiout s' = uiout s
          \<and> cleanup_chain s' = cleanup_chain s
          \<and> (\<forall>c \<in> set (current_catcher s).
                exception_mem s' (exception c) = exception_mem s (exception c))
      | Some (Inl (Longjmp b r), s') \<Rightarrow>
          (case current_catcher s of
             [] \<Rightarrow> False
           | c # prev \<Rightarrow>
               b = buf c \<and> current_catcher s' = c\<lparr>state := CATCHER_ABORTING\<rparr> # prev
               \<and> (\<forall>c' \<in> set prev. exception c' \<noteq> exception c \<longrightarrow>
                     exception_mem s' (exception c') = exception_mem s (exception c'))
               \<and> (\<exists>sp. current_catcher sp = current_catcher s \<and> uiout sp = uiout s
                     \<and> cleanup_chain sp = cleanup_chain s
                     \<and> throw_exception (exception_mem s' (exception c)) sp = (Inl (Longjmp b r), s')))
      | Some (Inl _, s') \<Rightarrow> True)"

text \<open>
  Two protected operations for the concrete cases: one that calls a Throw primitive
  (and would return \<open>val\<close> if the primitive returned), one that returns a value.
\<close>

definition throwing :: "(gdb_state \<Rightarrow> unit result) \<Rightarrow> 'a \<Rightarrow> gdb_state \<Rightarrow> 'a result option" where
  "throwing throw val s =
     (case throw s of (Inl x, s') \<Rightarrow> Some (Inl x, s') | (Inr _, s') \<Rightarrow> Some (Inr val, s'))"

definition returning :: "'a \<Rightarrow> gdb_state \<Rightarrow> 'a result option" where
  "returning val s = Some (Inr val, s)"

text \<open>
  The outcome \<open>res\<close> of a call made in \<open>s\<close> leaves the catcher stack as it was: the
  call ends; when it returns, the catchers are those of \<open>s\<close>; when it leaves by a jump,
  the jump is to the top catcher of \<open>s\<close>, now aborting, above the catchers it had under
  it. Nothing is asked of a process that is aborted.
\<close>

definition stack_restored :: "gdb_state \<Rightarrow> 'a result option \<Rightarrow> bool" where
  "stack_restored s res \<longleftrightarrow>
     (case res of
        None \<Rightarrow> False
      | Some (Inr v, s') \<Rightarrow> current_catcher s' = current_catcher s
      | Some (Inl (Longjmp b r), s') \<Rightarrow>
          (case current_catcher s of
             [] \<Rightarrow> False
           | c # prev \<Rightarrow>
               b = buf c \<and> current_catcher s' = c\<lparr>state := CATCHER_ABORTING\<rparr> # prev)
      | Some (Inl _, s') \<Rightarrow> True)"

text \<open>
  The outcome \<open>res\<close> of a call made in \<open>s\<close> leaves the output sink and the cleanup
  chain as they were: when it returns, both are those of \<open>s\<close>; when it leaves by a
  jump, the jump is made by \<^verbatim>\<open>throw_exception\<close> called in a state that has both as in
  \<open>s\<close> (it then runs the restored chain), and the sink is that of \<open>s\<close>.
\<close>

definition sink_restored :: "gdb_state \<Rightarrow> 'a result option \<Rightarrow> bool" where
  "sink_restored s res \<longleftrightarrow>
     (case res of
        None \<Rightarrow> False
      | Some (Inr v, s') \<Rightarrow> uiout s' = uiout s \<and> cleanup_chain s' = cleanup_chain s
      | Some (Inl (Longjmp b r), s') \<Rightarrow>
          uiout s' = uiout s
          \<and> (\<exists>e sp. uiout sp = uiout s \<and> cleanup_chain sp = cleanup_chain s
                \<and> throw_exception e sp = (Inl (Longjmp b r), s'))
      | Some (Inl _, s') \<Rightarrow> True)"

text \<open>The state inside one Catch primitive that accepts everything, and an error exception.\<close>

definition inside_catcher :: gdb_state where
  "inside_catcher = protected_entry 0 RETURN_MASK_ALL bare_state"

definition bad_value :: exception where
  "bad_value = \<lparr>reason = RETURN_ERROR, error = GENERIC_ERROR, message = Some ''bad value''\<rparr>"

text \<open>
  A call of one of the Catch primitives, with the arguments that are not the protected
  operation: the output sink, the address for the message, the error string or the
  arguments of the command, and last the mask.
\<close>

datatype catch_call =
    Catch_exception ui_out int
  | Catch_exceptions_with_msg ui_out "nat option" int
  | Catch_exceptions ui_out int
  | Catch_errors "string option" int
  | Catch_command_errors "string option" int int

fun mask_of :: "catch_call \<Rightarrow> int" where
  "mask_of (Catch_exception u m) = m"
| "mask_of (Catch_exceptions_with_msg u g m) = m"
| "mask_of (Catch_exceptions u m) = m"
| "mask_of (Catch_errors errstring m) = m"
| "mask_of (Catch_command_errors arg from_tty m) = m"

text \<open>A protected operation that returns \<open>v\<close> once the operation \<open>f\<close> has returned.\<close>

definition and_return :: "'b \<Rightarrow> (gdb_state \<Rightarrow> 'a result option) \<Rightarrow> gdb_state \<Rightarrow> 'b result option" where
  "and_return v f s =
     (case f s of
        None \<Rightarrow> None
      | Some (Inl x, s') \<Rightarrow> Some (Inl x, s')
      | Some (Inr _, s') \<Rightarrow> Some (Inr v, s'))"

text \<open>
  The call made around an operation \<open>f\<close>. The primitives whose operation returns an
  \<^verbatim>\<open>int\<close> get an operation that returns 0 after \<open>f\<close>; the caller drops what the
  primitive gives back.
\<close>

fun invoke :: "catch_call \<Rightarrow> (gdb_state \<Rightarrow> unit result option) \<Rightarrow> gdb_state \<Rightarrow> unit result option"
where
  "invoke (Catch_exception u m) f = and_return () (catch_exception u (\<lambda>_ _. f) () m)"
| "invoke (Catch_exceptions_with_msg u g m) f =
     and_return () (catch_exceptions_with_msg u (\<lambda>_ _. and_return 0 f) () g m)"
| "invoke (Catch_exceptions u m) f =
     and_return () (catch_exceptions u (\<lambda>_ _. and_return 0 f) () m)"
| "invoke (Catch_errors errstring m) f =
     and_return () (catch_errors (\<lambda>_. and_return 0 f) () errstring m)"
| "invoke (Catch_command_errors arg from_tty m) f =
     and_return () (catch_command_errors (\<lambda>_ _. f) arg from_tty m)"

text \<open>Catch invocations nested in one another around an operation, outermost first.\<close>

fun nested_catch :: "catch_call list \<Rightarrow> (gdb_state \<Rightarrow> unit result option) \<Rightarrow> gdb_state \<Rightarrow> unit result option"
where
  "nested_catch [] op = op"
| "nested_catch (c # cs) op = invoke c (nested_catch cs op)"

text \<open>An operation that throws \<open>e\<close> to the catchers it finds, which it leaves in place.\<close>

definition throws :: "exception \<Rightarrow> (gdb_state \<Rightarrow> 'a result option) \<Rightarrow> bool" where
  "throws e func \<longleftrightarrow>
     (\<forall>s. \<exists>x s' sp. func s = Some (Inl x, s') \<and> throw_exception e sp = (Inl x, s')
        \<and> current_catcher sp = current_catcher s \<and> uiout sp = uiout s
        \<and> cleanup_chain sp = cleanup_chain s
        \<and> (\<forall>c \<in> set (current_catcher s).
              exception_mem sp (exception c) = exception_mem s (exception c)))"

text \<open>An operation that returns, with the catchers and their status buffers as it found them.\<close>

definition completes :: "(gdb_state \<Rightarrow> 'a result option) \<Rightarrow> bool" where
  "completes func \<longleftrightarrow>
     (\<forall>s. \<exists>v s'. func s = Some (Inr v, s') \<and> current_catcher s' = current_catcher s
        \<and> (\<forall>c \<in> set (current_catcher s).
              exception_mem s' (exception c) = exception_mem s (exception c)))"

text \<open>The exception of a quit, as \<^verbatim>\<open>throw_reason\<close> builds it.\<close>

definition quit_exception :: exception where
  "quit_exception = \<lparr>reason = RETURN_QUIT, error = NO_ERROR, message = None\<rparr>"

text \<open>
  The Catch primitives have one shape: push a catcher, run the loop, and work on the
  value of the loop once the catcher is popped.
\<close>

definition primitive_shape ::
  "(gdb_state \<Rightarrow> 'b result option) \<Rightarrow> (gdb_state \<Rightarrow> ui_out) \<Rightarrow> int
    \<Rightarrow> (gdb_state \<Rightarrow> 'a result option) \<Rightarrow> 'a
    \<Rightarrow> (gdb_state \<Rightarrow> 'a \<Rightarrow> gdb_state \<Rightarrow> 'b result option) \<Rightarrow> bool" where
  "primitive_shape P sink m func val post \<longleftrightarrow>
     (\<forall>s. P s =
        (case catch_loop (fst (catcher_init (sink s) (local_exception s) m s)) func val
                (snd (catcher_init (sink s) (local_exception s) m s)) of
           None \<Rightarrow> None
         | Some (Inl x, s2) \<Rightarrow> Some (Inl x, s2)
         | Some (Inr v, s2) \<Rightarrow> post s v s2))"

section \<open>Properties\<close>

subsection \<open>Throwing and popping, in closed form\<close>

lemma throw_exception_cleaned:
  "throw_exception e s =
     (case catcher_state_machine CATCH_THROWING (cleaned s) of
        (Inl x, s8) \<Rightarrow> (Inl x, s8)
      | (Inr _, s8) \<Rightarrow>
          (case current_catcher s8 of
             [] \<Rightarrow> (Inl Null_deref, s8)
           | c # prev \<Rightarrow>
               (Inl (Longjmp (buf c) (reason e)),
                s8\<lparr>exception_mem := (exception_mem s8)(exception c := e)\<rparr>)))"
proof -
  have "(let s1 = log (Store_quit_flag 0) (s\<lparr>quit_flag := 0\<rparr>);
          s2 = log (Store_immediate_quit 0) (s1\<lparr>immediate_quit := 0\<rparr>);
          s3 = log Call_bpstat_clear_actions s2;
          s4 = log Call_disable_current_display s3;
          s5 = do_cleanups_ALL s4;
          s6 = (if target_can_async_p s5 \<and> target_executing s5 = 0
                then log Call_do_exec_cleanups s5 else s5);
          s7 = (if sync_execution s6 \<noteq> 0 then log Call_do_exec_error_cleanups s6 else s6)
      in s7) = cleaned s"
    by (simp add: cleaned_def log_def do_cleanups_ALL_def Let_def)
  then show ?thesis
    by (simp add: throw_exception.simps Let_def)
qed

lemma cleaned_simps [simp]:
  "current_catcher (cleaned s) = current_catcher s"
  "exception_mem (cleaned s) = exception_mem s"
  "gdberrmsg_mem (cleaned s) = gdberrmsg_mem s"
  "last_message (cleaned s) = last_message s"
  "uiout (cleaned s) = uiout s"
  "cleanup_chain (cleaned s) = []"
  "quit_flag (cleaned s) = 0"
  "immediate_quit (cleaned s) = 0"
  by (simp_all add: cleaned_def)

lemma throw_exception_Nil:
  "current_catcher s = [] \<Longrightarrow> throw_exception e s = (Inl Null_deref, cleaned s)"
  by (simp add: throw_exception_cleaned catcher_state_machine.simps)

lemma throw_exception_running:
  "current_catcher s = c # prev \<Longrightarrow>
   state c = CATCHER_RUNNING \<or> state c = CATCHER_RUNNING_1 \<Longrightarrow>
   throw_exception e s =
     (Inl (Longjmp (buf c) (reason e)),
      (cleaned s)\<lparr>current_catcher := c\<lparr>state := CATCHER_ABORTING\<rparr> # prev,
        exception_mem := (exception_mem s)(exception c := e)\<rparr>)"
  by (auto simp add: throw_exception_cleaned catcher_state_machine.simps)

lemma throw_exception_bad_state:
  "current_catcher s = c # prev \<Longrightarrow>
   state c = CATCHER_CREATED \<or> state c = CATCHER_ABORTING \<Longrightarrow>
   throw_exception e s =
     (Inl (Internal_error (if state c = CATCHER_CREATED then 148 else 205) ''bad state''),
      cleaned s)"
  by (auto simp add: throw_exception_cleaned catcher_state_machine.simps)

lemma throw_exception_Inl: "\<exists>x s'. throw_exception e s = (Inl x, s')"
  by (simp add: throw_exception_cleaned split: prod.split sum.split list.split)

text \<open>
  Throwing writes neither the variables of the callers that hold messages nor, but
  for \<^verbatim>\<open>throw_it\<close>, the last message.
\<close>

lemma throw_exception_gdberrmsg:
  "gdberrmsg_mem (snd (throw_exception e s)) = gdberrmsg_mem s"
  by (simp add: throw_exception_cleaned catcher_state_machine.simps
      split: list.split catcher_state.split)

lemma throw_it_gdberrmsg:
  "gdberrmsg_mem (snd (throw_it r k t s)) = gdberrmsg_mem s"
  by (simp add: throw_it_def throw_exception_gdberrmsg)

lemma throw_exception_last_message:
  "last_message (snd (throw_exception e s)) = last_message s"
  by (simp add: throw_exception_cleaned catcher_state_machine.simps
      split: list.split catcher_state.split)

lemma throw_it_last_message:
  "last_message (snd (throw_it r k t s)) = Some t"
  by (simp add: throw_it_def throw_exception_last_message)

lemma catcher_pop_Cons:
  "current_catcher s = c # prev \<Longrightarrow>
   catcher_pop s =
     (Inr (), s\<lparr>current_catcher := prev, cleanup_chain := saved_cleanup_chain c,
        uiout := saved_uiout c,
        trace := trace s @ [Call_restore_cleanups (saved_cleanup_chain c),
                            Store_uiout (saved_uiout c)]\<rparr>)"
  by (simp add: catcher_pop_def restore_cleanups_def log_def Let_def)

subsection \<open>Catchers pushed by the Catch primitives\<close>

lemma fold_max_ge: "x \<in> set xs \<Longrightarrow> x \<le> fold max xs (n::nat)"
proof (induction xs arbitrary: n)
  case Nil then show ?case by simp
next
  case (Cons y ys)
  have mono: "n \<le> fold max ys n" for n
    by (induction ys arbitrary: n) (auto intro: order_trans [OF max.cobounded2])
  show ?case
  proof (cases "x = y")
    case True
    then show ?thesis using mono [of "max y n"] by simp
  next
    case False
    with Cons show ?thesis by simp
  qed
qed

lemma XZALLOC_fresh: "c \<in> set (current_catcher s) \<Longrightarrow> buf c \<noteq> XZALLOC s"
  using fold_max_ge [of "buf c" "map buf (current_catcher s)" 0]
  by (auto simp add: XZALLOC_def)

lemma local_exception_fresh: "c \<in> set (current_catcher s) \<Longrightarrow> exception c \<noteq> local_exception s"
  using fold_max_ge [of "exception c" "map exception (current_catcher s)" 0]
  by (auto simp add: local_exception_def)

lemma catcher_init_eq:
  "catcher_init func_uiout a mask' s =
     (XZALLOC s,
      s\<lparr>exception_mem := (exception_mem s)(a := exception_none), uiout := func_uiout,
        cleanup_chain := [], trace := trace s @ [Store_uiout func_uiout, Call_save_cleanups],
        current_catcher :=
          \<lparr>state = CATCHER_CREATED, buf = XZALLOC s, exception = a, mask_c = mask',
           saved_uiout = uiout s, saved_cleanup_chain = cleanup_chain s\<rparr> # current_catcher s\<rparr>)"
  by (simp add: catcher_init_def save_cleanups_def log_def Let_def exception_none_def)

lemma protected_entry_eq:
  "protected_entry func_uiout mask' s =
     s\<lparr>exception_mem := (exception_mem s)(local_exception s := exception_none),
       uiout := func_uiout, cleanup_chain := [],
       trace := trace s @ [Store_uiout func_uiout, Call_save_cleanups],
       current_catcher :=
         \<lparr>state = CATCHER_RUNNING, buf = XZALLOC s, exception = local_exception s,
          mask_c = mask', saved_uiout = uiout s, saved_cleanup_chain = cleanup_chain s\<rparr>
         # current_catcher s\<rparr>"
  by (simp add: protected_entry_def catcher_init_eq catcher_state_machine.simps)

subsection \<open>The loop of the Catch primitives\<close>

lemma catch_loop_created:
  "catch_loop (XZALLOC s) func val (snd (catcher_init func_uiout (local_exception s) mask' s)) =
     (case func (protected_entry func_uiout mask' s) of
        None \<Rightarrow> None
      | Some (Inr v, s2) \<Rightarrow> catch_loop (XZALLOC s) func v s2
      | Some (Inl (Longjmp b r), s2) \<Rightarrow>
          if b = XZALLOC s then catch_loop (XZALLOC s) func val s2
          else Some (Inl (Longjmp b r), s2)
      | Some (Inl x, s2) \<Rightarrow> Some (Inl x, s2))"
  by (subst catch_loop.simps)
    (simp add: protected_entry_eq catcher_init_eq catcher_state_machine.simps)

lemma catch_loop_running:
  assumes "current_catcher s = c # prev" and "state c = CATCHER_RUNNING"
  shows "catch_loop catch func val s = Some (Inr val, snd (catcher_pop s))"
  using assms
  by (subst catch_loop.simps) (simp add: catcher_state_machine.simps catcher_pop_Cons)

lemma throw_exception_target:
  assumes "throw_exception e s = (Inl (Longjmp b r), s')"
  shows "\<exists>c prev. current_catcher s = c # prev \<and> b = buf c"
  using assms
  by (auto simp add: throw_exception_cleaned catcher_state_machine.simps
      split: list.splits catcher_state.splits)

lemma catch_loop_aborting:
  assumes "current_catcher s = c # prev" and "state c = CATCHER_ABORTING"
    and "\<forall>c' \<in> set prev. buf c' \<noteq> catch"
  shows "catch_loop catch func val s =
     (if and (mask_c c) (RETURN_MASK (reason (exception_mem s (exception c)))) \<noteq> 0
      then Some (Inr val, snd (catcher_pop s))
      else case throw_exception (exception_mem s (exception c)) (snd (catcher_pop s)) of
             (x, s') \<Rightarrow> Some (Inl (projl x), s'))"
proof -
  obtain x s' where thrown:
    "throw_exception (exception_mem s (exception c)) (snd (catcher_pop s)) = (Inl x, s')"
    using throw_exception_Inl by blast
  have "x \<noteq> Longjmp catch r" for r
  proof
    assume "x = Longjmp catch r"
    with thrown obtain c' prev' where "current_catcher (snd (catcher_pop s)) = c' # prev'"
      and "catch = buf c'"
      using throw_exception_target by blast
    with assms show False
      by (simp add: catcher_pop_Cons)
  qed
  then show ?thesis
    using assms thrown
    by (subst catch_loop.simps)
      (auto simp add: catcher_state_machine.simps catcher_pop_Cons split: exit.splits)
qed

subsection \<open>Well nested operations\<close>

lemma well_nested_terminates: "well_nested func \<Longrightarrow> func s \<noteq> None"
  unfolding well_nested_def by (erule allE [of _ s]) (auto split: option.splits)

lemma well_nested_Inr:
  assumes "well_nested func" and "func s = Some (Inr v, s')"
  shows "current_catcher s' = current_catcher s"
    and "c \<in> set (current_catcher s) \<Longrightarrow> exception_mem s' (exception c) = exception_mem s (exception c)"
  using assms unfolding well_nested_def by (force dest: spec [of _ s])+

lemma well_nested_Longjmp:
  assumes "well_nested func" and "func s = Some (Inl (Longjmp b r), s')"
  obtains c prev where "current_catcher s = c # prev" and "b = buf c"
    and "current_catcher s' = c\<lparr>state := CATCHER_ABORTING\<rparr> # prev"
    and "\<And>c'. c' \<in> set prev \<Longrightarrow> exception c' \<noteq> exception c \<Longrightarrow>
           exception_mem s' (exception c') = exception_mem s (exception c')"
proof -
  from assms have "case current_catcher s of
             [] \<Rightarrow> False
           | c # prev \<Rightarrow>
               b = buf c \<and> current_catcher s' = c\<lparr>state := CATCHER_ABORTING\<rparr> # prev
               \<and> (\<forall>c' \<in> set prev. exception c' \<noteq> exception c \<longrightarrow>
                     exception_mem s' (exception c') = exception_mem s (exception c'))"
    unfolding well_nested_def by (force dest: spec [of _ s])
  then show thesis
    using that by (cases "current_catcher s") auto
qed

lemma pushed_simps [simp]:
  "state (pushed u m s st) = st"
  "buf (pushed u m s st) = XZALLOC s"
  "exception (pushed u m s st) = local_exception s"
  "mask_c (pushed u m s st) = m"
  "saved_uiout (pushed u m s st) = uiout s"
  "saved_cleanup_chain (pushed u m s st) = cleanup_chain s"
  "(pushed u m s st)\<lparr>state := st'\<rparr> = pushed u m s st'"
  by (simp_all add: pushed_def)

lemma protected_entry_simps [simp]:
  "current_catcher (protected_entry u m s) = pushed u m s CATCHER_RUNNING # current_catcher s"
  "exception_mem (protected_entry u m s) = (exception_mem s)(local_exception s := exception_none)"
  "uiout (protected_entry u m s) = u"
  "cleanup_chain (protected_entry u m s) = []"
  by (simp_all add: protected_entry_eq pushed_def)

lemma catch_loop_well_nested:
  assumes wn: "well_nested func"
    and init: "catcher_init u (local_exception s) m s = (catch, s1)"
  shows "catch_loop catch func val s1 =
     (case func (protected_entry u m s) of
        None \<Rightarrow> None
      | Some (Inr v, s2) \<Rightarrow> Some (Inr v, snd (catcher_pop s2))
      | Some (Inl (Longjmp b r), s2) \<Rightarrow>
          if and m (RETURN_MASK (reason (exception_mem s2 (local_exception s)))) \<noteq> 0
          then Some (Inr val, snd (catcher_pop s2))
          else (case throw_exception (exception_mem s2 (local_exception s))
                       (snd (catcher_pop s2)) of
                  (x, s') \<Rightarrow> Some (Inl (projl x), s'))
      | Some (Inl x, s2) \<Rightarrow> Some (Inl x, s2))"
proof -
  from init have catch: "catch = XZALLOC s"
    by (auto simp add: catcher_init_eq)
  from init have s1: "s1 = snd (catcher_init u (local_exception s) m s)"
    by simp
  let ?entry = "protected_entry u m s"
  have fresh: "\<forall>c' \<in> set (current_catcher s). buf c' \<noteq> XZALLOC s"
    using XZALLOC_fresh by blast
  show ?thesis
  proof (cases "func ?entry")
    case None
    then show ?thesis
      unfolding catch s1 catch_loop_created by simp
  next
    case (Some res)
    obtain out s2 where res: "res = (out, s2)"
      by (cases res)
    show ?thesis
    proof (cases out)
      case (Inr v)
      with Some res have ret: "func ?entry = Some (Inr v, s2)"
        by simp
      from well_nested_Inr(1) [OF wn ret]
      have "current_catcher s2 = pushed u m s CATCHER_RUNNING # current_catcher s"
        by simp
      then have "catch_loop (XZALLOC s) func v s2 = Some (Inr v, snd (catcher_pop s2))"
        by (rule catch_loop_running) simp
      then show ?thesis
        unfolding catch s1 catch_loop_created by (simp add: ret)
    next
      case (Inl x)
      show ?thesis
      proof (cases x)
        case (Longjmp b r)
        with Some res Inl have thr: "func ?entry = Some (Inl (Longjmp b r), s2)"
          by simp
        from well_nested_Longjmp [OF wn thr]
        have b: "b = XZALLOC s"
          and stack: "current_catcher s2 = pushed u m s CATCHER_ABORTING # current_catcher s"
          by auto
        have "catch_loop (XZALLOC s) func val s2 =
          (if and (mask_c (pushed u m s CATCHER_ABORTING))
                (RETURN_MASK (reason (exception_mem s2 (exception (pushed u m s CATCHER_ABORTING))))) \<noteq> 0
           then Some (Inr val, snd (catcher_pop s2))
           else case throw_exception (exception_mem s2 (exception (pushed u m s CATCHER_ABORTING)))
                       (snd (catcher_pop s2)) of
                  (x, s') \<Rightarrow> Some (Inl (projl x), s'))"
          using stack fresh by (intro catch_loop_aborting) simp_all
        then show ?thesis
          unfolding catch s1 catch_loop_created by (simp add: thr b)
      next
        case (Internal_error l t)
        with Some res Inl show ?thesis
          unfolding catch s1 catch_loop_created by simp
      next
        case Null_deref
        with Some res Inl show ?thesis
          unfolding catch s1 catch_loop_created by simp
      qed
    qed
  qed
qed

subsection \<open>What a Catch primitive restores\<close>

lemma catcher_pop_pushed:
  assumes "current_catcher s2 = pushed u m s st # current_catcher s"
  shows "snd (catcher_pop s2) =
     s2\<lparr>current_catcher := current_catcher s, cleanup_chain := cleanup_chain s,
        uiout := uiout s,
        trace := trace s2 @ [Call_restore_cleanups (cleanup_chain s), Store_uiout (uiout s)]\<rparr>"
  using assms by (simp add: catcher_pop_Cons)

lemma print_exception_frame [simp]:
  "current_catcher (snd (print_exception file e s)) = current_catcher s"
  "exception_mem (snd (print_exception file e s)) = exception_mem s"
  "gdberrmsg_mem (snd (print_exception file e s)) = gdberrmsg_mem s"
  "uiout (snd (print_exception file e s)) = uiout s"
  "cleanup_chain (snd (print_exception file e s)) = cleanup_chain s"
  by (simp_all add: print_exception_def log_def Let_def)

lemma print_any_exception_frame [simp]:
  "current_catcher (snd (print_any_exception file prefix e s)) = current_catcher s"
  "exception_mem (snd (print_any_exception file prefix e s)) = exception_mem s"
  "gdberrmsg_mem (snd (print_any_exception file prefix e s)) = gdberrmsg_mem s"
  "uiout (snd (print_any_exception file prefix e s)) = uiout s"
  "cleanup_chain (snd (print_any_exception file prefix e s)) = cleanup_chain s"
  by (simp_all add: print_any_exception_def log_def Let_def split: option.split)

lemma print_any_exception_none:
  "reason e = 0 \<Longrightarrow> print_any_exception file prefix e s = (Inr (), s)"
  by (simp add: print_any_exception_def)

lemma restores_Inr:
  assumes "current_catcher s' = current_catcher s" and "uiout s' = uiout s"
    and "cleanup_chain s' = cleanup_chain s"
    and "\<And>c. c \<in> set (current_catcher s) \<Longrightarrow>
           exception_mem s' (exception c) = exception_mem s (exception c)"
  shows "restores s (Some (Inr v, s'))"
  using assms by (simp add: restores_def)

lemma restores_abort [simp]:
  "restores s (Some (Inl (Internal_error l t), s'))"
  "restores s (Some (Inl Null_deref, s'))"
  by (simp_all add: restores_def)

lemma throw_exception_Longjmp:
  assumes "throw_exception e s = (Inl (Longjmp b r), s')"
  obtains c prev where "current_catcher s = c # prev" and "b = buf c" and "r = reason e"
    and "s' = (cleaned s)\<lparr>current_catcher := c\<lparr>state := CATCHER_ABORTING\<rparr> # prev,
        exception_mem := (exception_mem s)(exception c := e)\<rparr>"
proof (cases "current_catcher s")
  case Nil
  with assms show thesis
    by (simp add: throw_exception_Nil)
next
  case (Cons c prev)
  show thesis
  proof (cases "state c = CATCHER_RUNNING \<or> state c = CATCHER_RUNNING_1")
    case True
    from assms show thesis
      unfolding throw_exception_running [OF Cons True]
      by (intro that [OF Cons]) simp_all
  next
    case False
    then have bad: "state c = CATCHER_CREATED \<or> state c = CATCHER_ABORTING"
      by (cases "state c") simp_all
    from assms show thesis
      unfolding throw_exception_bad_state [OF Cons bad] by simp
  qed
qed

lemma throw_exception_restores:
  assumes stack: "current_catcher sp = current_catcher s" and "uiout sp = uiout s"
    and "cleanup_chain sp = cleanup_chain s"
    and mem: "\<And>c. c \<in> set (current_catcher s) \<Longrightarrow>
           exception_mem sp (exception c) = exception_mem s (exception c)"
    and thrown: "throw_exception e sp = (Inl y, s')"
  shows "restores s (Some (Inl y, s'))"
proof (cases y)
  case (Longjmp b r)
  from thrown [unfolded Longjmp]
  obtain c prev where top: "current_catcher sp = c # prev" and b: "b = buf c"
    and s': "s' = (cleaned sp)\<lparr>current_catcher := c\<lparr>state := CATCHER_ABORTING\<rparr> # prev,
       exception_mem := (exception_mem sp)(exception c := e)\<rparr>"
    by (rule throw_exception_Longjmp)
  from top stack have cs: "current_catcher s = c # prev"
    by simp
  have 1: "current_catcher s' = c\<lparr>state := CATCHER_ABORTING\<rparr> # prev"
    by (simp add: s')
  have 2: "exception_mem s' (exception c') = exception_mem s (exception c')"
    if "c' \<in> set prev" "exception c' \<noteq> exception c" for c'
    using that mem [of c'] cs by (simp add: s')
  have 3: "exception_mem s' (exception c) = e"
    by (simp add: s')
  have 4: "throw_exception (exception_mem s' (exception c)) sp = (Inl (Longjmp b r), s')"
    unfolding 3 using thrown Longjmp by simp
  show ?thesis
    unfolding restores_def Longjmp
    using cs b 1 2 4 assms(1-3) by auto
qed simp_all

lemma entry_returned:
  assumes wn: "well_nested func" and ret: "func (protected_entry u m s) = Some (Inr v, s2)"
  shows "current_catcher s2 = pushed u m s CATCHER_RUNNING # current_catcher s"
    and "exception_mem s2 (local_exception s) = exception_none"
    and "\<And>c. c \<in> set (current_catcher s) \<Longrightarrow>
          exception_mem s2 (exception c) = exception_mem s (exception c)"
proof -
  show "current_catcher s2 = pushed u m s CATCHER_RUNNING # current_catcher s"
    using well_nested_Inr(1) [OF wn ret] by simp
  show "exception_mem s2 (local_exception s) = exception_none"
    using well_nested_Inr(2) [OF wn ret, of "pushed u m s CATCHER_RUNNING"] by simp
  show "exception_mem s2 (exception c) = exception_mem s (exception c)"
    if "c \<in> set (current_catcher s)" for c
    using well_nested_Inr(2) [OF wn ret, of c] that local_exception_fresh [OF that] by simp
qed

lemma entry_thrown:
  assumes wn: "well_nested func"
    and thr: "func (protected_entry u m s) = Some (Inl (Longjmp b r), s2)"
  shows "b = XZALLOC s"
    and "current_catcher s2 = pushed u m s CATCHER_ABORTING # current_catcher s"
    and "\<And>c. c \<in> set (current_catcher s) \<Longrightarrow>
          exception_mem s2 (exception c) = exception_mem s (exception c)"
proof -
  from well_nested_Longjmp [OF wn thr]
  obtain c0 prev0 where top0: "current_catcher (protected_entry u m s) = c0 # prev0"
    and b: "b = buf c0"
    and stack0: "current_catcher s2 = c0\<lparr>state := CATCHER_ABORTING\<rparr> # prev0"
    and mem0: "\<And>c'. c' \<in> set prev0 \<Longrightarrow> exception c' \<noteq> exception c0 \<Longrightarrow>
       exception_mem s2 (exception c') = exception_mem (protected_entry u m s) (exception c')"
    by blast
  from top0 have c0: "c0 = pushed u m s CATCHER_RUNNING" and prev0: "prev0 = current_catcher s"
    by simp_all
  show "b = XZALLOC s"
    using b by (simp add: c0)
  show "current_catcher s2 = pushed u m s CATCHER_ABORTING # current_catcher s"
    using stack0 by (simp add: c0 prev0)
  show "exception_mem s2 (exception c) = exception_mem s (exception c)"
    if "c \<in> set (current_catcher s)" for c
    using mem0 [of c] that local_exception_fresh [OF that] by (simp add: c0 prev0)
qed

lemma catch_loop_restores:
  assumes wn: "well_nested func"
    and init: "catcher_init u (local_exception s) m s = (catch, s1)"
  shows "restores s (catch_loop catch func val s1)"
proof -
  let ?entry = "protected_entry u m s"
  note loop = catch_loop_well_nested [OF wn init, of val]
  from well_nested_terminates [OF wn, of ?entry]
  obtain out s2 where res: "func ?entry = Some (out, s2)"
    by (cases "func ?entry") auto
  show ?thesis
  proof (cases out)
    case (Inr v)
    with res have ret: "func ?entry = Some (Inr v, s2)"
      by simp
    note facts = entry_returned [OF wn ret]
    have "restores s (Some (Inr v, snd (catcher_pop s2)))"
      by (rule restores_Inr) (simp_all add: catcher_pop_pushed [OF facts(1)] facts(3))
    then show ?thesis
      unfolding loop by (simp add: ret)
  next
    case (Inl x)
    show ?thesis
    proof (cases x)
      case (Longjmp b r)
      with res Inl have thr: "func ?entry = Some (Inl (Longjmp b r), s2)"
        by simp
      note facts = entry_thrown [OF wn thr]
      let ?e = "exception_mem s2 (local_exception s)"
      let ?sp = "snd (catcher_pop s2)"
      note sp = catcher_pop_pushed [OF facts(2)]
      show ?thesis
      proof (cases "and m (RETURN_MASK (reason ?e)) \<noteq> 0")
        case True
        have "restores s (Some (Inr val, ?sp))"
          by (rule restores_Inr) (simp_all add: sp facts(3))
        with True show ?thesis
          unfolding loop by (simp add: thr)
      next
        case False
        obtain y s' where thrown: "throw_exception ?e ?sp = (Inl y, s')"
          using throw_exception_Inl by blast
        have "restores s (Some (Inl y, s'))"
          by (rule throw_exception_restores [OF _ _ _ _ thrown]) (simp_all add: sp facts(3))
        with False show ?thesis
          unfolding loop by (simp add: thr thrown)
      qed
    next
      case (Internal_error l t)
      with res Inl show ?thesis
        unfolding loop by simp
    next
      case Null_deref
      with res Inl show ?thesis
        unfolding loop by simp
    qed
  qed
qed

lemma restores_after:
  assumes "restores s (Some (Inr v, s2))"
    and "current_catcher s3 = current_catcher s2" and "uiout s3 = uiout s2"
    and "cleanup_chain s3 = cleanup_chain s2" and "exception_mem s3 = exception_mem s2"
    and "\<And>b r. out \<noteq> Inl (Longjmp b r)"
  shows "restores s (Some (out, s3))"
proof (cases out)
  case (Inr w)
  with assms(1-5) show ?thesis
    by (simp add: restores_def)
next
  case (Inl x)
  show ?thesis
  proof (cases x)
    case (Longjmp b r)
    with Inl assms(6) [of b r] show ?thesis by simp
  qed (simp_all add: Inl)
qed

lemma print_exception_no_jump: "fst (print_exception file e s) \<noteq> Inl (Longjmp b r)"
  by (simp add: print_exception_def Let_def)

lemma print_any_exception_no_jump:
  "fst (print_any_exception file prefix e s) \<noteq> Inl (Longjmp b r)"
  by (simp add: print_any_exception_def Let_def print_exception_no_jump)

lemma restores_primitive:
  fixes loopres :: "'a result option" and post :: "'a \<Rightarrow> gdb_state \<Rightarrow> 'b result option"
  assumes loop: "restores s loopres"
    and post: "\<And>v s2. \<exists>out s3. post v s2 = Some (out, s3)
        \<and> current_catcher s3 = current_catcher s2 \<and> uiout s3 = uiout s2
        \<and> cleanup_chain s3 = cleanup_chain s2 \<and> exception_mem s3 = exception_mem s2
        \<and> (\<forall>b r. out \<noteq> Inl (Longjmp b r))"
  shows "restores s (case loopres of
            None \<Rightarrow> None
          | Some (Inl x, s2) \<Rightarrow> Some (Inl x, s2)
          | Some (Inr v, s2) \<Rightarrow> post v s2)"
proof (cases loopres)
  case None
  with loop show ?thesis by (simp add: restores_def)
next
  case (Some res)
  obtain out s2 where res: "res = (out, s2)" by (cases res)
  show ?thesis
  proof (cases out)
    case (Inl x)
    from loop have "restores s (Some (Inl x, s2) :: 'b result option)"
      unfolding Some res Inl by (simp add: restores_def)
    then show ?thesis
      by (simp add: Some res Inl)
  next
    case (Inr v)
    from post [of v s2] obtain out' s3 where p: "post v s2 = Some (out', s3)"
      and frame: "current_catcher s3 = current_catcher s2" "uiout s3 = uiout s2"
        "cleanup_chain s3 = cleanup_chain s2" "exception_mem s3 = exception_mem s2"
      and nojump: "\<And>b r. out' \<noteq> Inl (Longjmp b r)"
      by blast
    from loop have "restores s (Some (Inr v, s2))"
      by (simp add: Some res Inr)
    then have "restores s (Some (out', s3))"
      using frame nojump by (rule restores_after)
    then show ?thesis
      by (simp add: Some res Inr p)
  qed
qed

lemma catch_exception_restores:
  assumes wn: "well_nested (func u args)"
  shows "restores s (catch_exception u func args m s)"
proof -
  obtain catch s1 where init: "catcher_init u (local_exception s) m s = (catch, s1)"
    by (cases "catcher_init u (local_exception s) m s")
  have "restores s (case catch_loop catch (func u args) () s1 of
            None \<Rightarrow> None
          | Some (Inl x, s2) \<Rightarrow> Some (Inl x, s2)
          | Some (Inr v, s2) \<Rightarrow> Some (Inr (exception_mem s2 (local_exception s)), s2))"
    by (rule restores_primitive [OF catch_loop_restores [OF wn init]]) simp
  then show ?thesis
    by (simp add: catch_exception_def Let_def init)
qed

lemma printed_frame:
  assumes "print_any_exception file prefix e s2 = (p, s3)"
  shows "current_catcher s3 = current_catcher s2" and "uiout s3 = uiout s2"
    and "cleanup_chain s3 = cleanup_chain s2" and "exception_mem s3 = exception_mem s2"
    and "gdberrmsg_mem s3 = gdberrmsg_mem s2" and "p \<noteq> Inl (Longjmp b r)"
proof -
  from assms have s3: "s3 = snd (print_any_exception file prefix e s2)"
    and p: "p = fst (print_any_exception file prefix e s2)"
    by simp_all
  show "current_catcher s3 = current_catcher s2" and "uiout s3 = uiout s2"
    and "cleanup_chain s3 = cleanup_chain s2" and "exception_mem s3 = exception_mem s2"
    and "gdberrmsg_mem s3 = gdberrmsg_mem s2"
    unfolding s3 by simp_all
  show "p \<noteq> Inl (Longjmp b r)"
    unfolding p by (rule print_any_exception_no_jump)
qed

lemma catch_exceptions_with_msg_restores:
  assumes wn: "well_nested (func u args)"
  shows "restores s (catch_exceptions_with_msg u func args g m s)"
proof -
  obtain catch s1 where init: "catcher_init u (local_exception s) m s = (catch, s1)"
    by (cases "catcher_init u (local_exception s) m s")
  let ?a = "local_exception s"
  let ?post = "\<lambda>val s2.
             (case print_any_exception gdb_stderr None (exception_mem s2 ?a) s2 of
                (Inl x, s3) \<Rightarrow> Some (Inl x, s3)
              | (Inr _, s3) \<Rightarrow>
                  if \<not> val \<ge> 0 then Some (Inl (Internal_error 467 ''val >= 0''), s3)
                  else if \<not> reason (exception_mem s3 ?a) \<le> 0
                    then Some (Inl (Internal_error 468 ''exception.reason <= 0''), s3)
                  else if reason (exception_mem s3 ?a) < 0
                    then (case g of
                            None \<Rightarrow> Some (Inr (reason (exception_mem s3 ?a)), s3)
                          | Some p \<Rightarrow>
                              Some (Inr (reason (exception_mem s3 ?a)),
                                    s3\<lparr>gdberrmsg_mem := (gdberrmsg_mem s3)
                                         (p := message (exception_mem s3 ?a))\<rparr>))
                  else Some (Inr val, s3))"
  have post: "\<exists>out s3. ?post v s2 = Some (out, s3)
        \<and> current_catcher s3 = current_catcher s2 \<and> uiout s3 = uiout s2
        \<and> cleanup_chain s3 = cleanup_chain s2 \<and> exception_mem s3 = exception_mem s2
        \<and> (\<forall>b r. out \<noteq> Inl (Longjmp b r))" for v :: int and s2
  proof -
    obtain p s3 where printed:
      "print_any_exception gdb_stderr None (exception_mem s2 ?a) s2 = (p, s3)"
      by (cases "print_any_exception gdb_stderr None (exception_mem s2 ?a) s2")
    note frame = printed_frame [OF printed]
    show ?thesis
    proof (cases p)
      case (Inl x)
      with frame show ?thesis
        by (simp add: printed)
    next
      case (Inr w)
      with frame(1-4) show ?thesis
        by (cases g) (simp_all add: printed)
    qed
  qed
  have "restores s (case catch_loop catch (func u args) 0 s1 of
            None \<Rightarrow> None
          | Some (Inl x, s2) \<Rightarrow> Some (Inl x, s2)
          | Some (Inr v, s2) \<Rightarrow> ?post v s2)"
    by (rule restores_primitive [OF catch_loop_restores [OF wn init]]) (rule post)
  then show ?thesis
    by (simp add: catch_exceptions_with_msg_def Let_def init)
qed

lemma catch_errors_restores:
  assumes wn: "well_nested (func args)"
  shows "restores s (catch_errors func args errstring m s)"
proof -
  obtain catch s1 where init: "catcher_init (uiout s) (local_exception s) m s = (catch, s1)"
    by (cases "catcher_init (uiout s) (local_exception s) m s")
  let ?a = "local_exception s"
  let ?post = "\<lambda>val s2.
             (case print_any_exception gdb_stderr errstring (exception_mem s2 ?a) s2 of
                (Inl x, s3) \<Rightarrow> Some (Inl x, s3)
              | (Inr _, s3) \<Rightarrow>
                  if reason (exception_mem s3 ?a) \<noteq> 0 then Some (Inr 0, s3)
                  else Some (Inr val, s3))"
  have post: "\<exists>out s3. ?post v s2 = Some (out, s3)
        \<and> current_catcher s3 = current_catcher s2 \<and> uiout s3 = uiout s2
        \<and> cleanup_chain s3 = cleanup_chain s2 \<and> exception_mem s3 = exception_mem s2
        \<and> (\<forall>b r. out \<noteq> Inl (Longjmp b r))" for v :: int and s2
  proof -
    obtain p s3 where printed:
      "print_any_exception gdb_stderr errstring (exception_mem s2 ?a) s2 = (p, s3)"
      by (cases "print_any_exception gdb_stderr errstring (exception_mem s2 ?a) s2")
    note frame = printed_frame [OF printed]
    show ?thesis
    proof (cases p)
      case (Inl x)
      with frame show ?thesis
        by (simp add: printed)
    next
      case (Inr w)
      with frame(1-4) show ?thesis
        by (simp add: printed)
    qed
  qed
  have "restores s (case catch_loop catch (func args) 0 s1 of
            None \<Rightarrow> None
          | Some (Inl x, s2) \<Rightarrow> Some (Inl x, s2)
          | Some (Inr v, s2) \<Rightarrow> ?post v s2)"
    by (rule restores_primitive [OF catch_loop_restores [OF wn init]]) (rule post)
  then show ?thesis
    by (simp add: catch_errors_def Let_def init)
qed

lemma catch_command_errors_restores:
  assumes wn: "well_nested (command arg from_tty)"
  shows "restores s (catch_command_errors command arg from_tty m s)"
proof -
  obtain catch s1 where init: "catcher_init (uiout s) (local_exception s) m s = (catch, s1)"
    by (cases "catcher_init (uiout s) (local_exception s) m s")
  let ?a = "local_exception s"
  let ?post = "\<lambda>(val :: unit) s2.
             (case print_any_exception gdb_stderr None (exception_mem s2 ?a) s2 of
                (Inl x, s3) \<Rightarrow> Some (Inl x, s3)
              | (Inr _, s3) \<Rightarrow>
                  if reason (exception_mem s3 ?a) < 0 then Some (Inr (0 :: int), s3)
                  else Some (Inr 1, s3))"
  have post: "\<exists>out s3. ?post v s2 = Some (out, s3)
        \<and> current_catcher s3 = current_catcher s2 \<and> uiout s3 = uiout s2
        \<and> cleanup_chain s3 = cleanup_chain s2 \<and> exception_mem s3 = exception_mem s2
        \<and> (\<forall>b r. out \<noteq> Inl (Longjmp b r))" for v s2
  proof -
    obtain p s3 where printed:
      "print_any_exception gdb_stderr None (exception_mem s2 ?a) s2 = (p, s3)"
      by (cases "print_any_exception gdb_stderr None (exception_mem s2 ?a) s2")
    note frame = printed_frame [OF printed]
    show ?thesis
    proof (cases p)
      case (Inl x)
      with frame show ?thesis
        by (simp add: printed)
    next
      case (Inr w)
      with frame(1-4) show ?thesis
        by (simp add: printed)
    qed
  qed
  have "restores s (case catch_loop catch (command arg from_tty) () s1 of
            None \<Rightarrow> None
          | Some (Inl x, s2) \<Rightarrow> Some (Inl x, s2)
          | Some (Inr v, s2) \<Rightarrow> ?post v s2)"
    by (rule restores_primitive [OF catch_loop_restores [OF wn init]]) (rule post)
  then show ?thesis
    by (simp add: catch_command_errors_def Let_def init)
qed

lemma restores_well_nested:
  assumes "\<And>s. restores s (func s)"
  shows "well_nested func"
  unfolding well_nested_def
proof
  fix s
  from assms [of s] show "case func s of
        None \<Rightarrow> False
      | Some (Inr v, s') \<Rightarrow>
          current_catcher s' = current_catcher s
          \<and> (\<forall>c \<in> set (current_catcher s).
                exception_mem s' (exception c) = exception_mem s (exception c))
      | Some (Inl (Longjmp b r), s') \<Rightarrow>
          (case current_catcher s of
             [] \<Rightarrow> False
           | c # prev \<Rightarrow>
               b = buf c \<and> current_catcher s' = c\<lparr>state := CATCHER_ABORTING\<rparr> # prev
               \<and> (\<forall>c' \<in> set prev. exception c' \<noteq> exception c \<longrightarrow>
                     exception_mem s' (exception c') = exception_mem s (exception c')))
      | Some (Inl _, s') \<Rightarrow> True"
    unfolding restores_def
    by (auto split: option.splits sum.splits exit.splits list.splits prod.splits)
qed

subsection \<open>Operations that return or throw\<close>

lemma well_nested_returning: "well_nested (returning v)"
  by (simp add: well_nested_def returning_def)

lemma restores_throw_exception:
  "restores s (throwing (throw_exception e) v s)"
proof -
  obtain y s' where thrown: "throw_exception e s = (Inl y, s')"
    using throw_exception_Inl by blast
  have "restores s (Some (Inl y, s') :: 'a result option)"
    by (rule throw_exception_restores [OF _ _ _ _ thrown]) simp_all
  then show ?thesis
    by (simp add: throwing_def thrown)
qed

lemma well_nested_throw_exception: "well_nested (throwing (throw_exception e) v)"
  by (rule restores_well_nested) (rule restores_throw_exception)

lemma well_nested_throw_reason: "well_nested (throwing (throw_reason r) v)"
proof -
  have "throwing (throw_reason r) v =
    (if r = RETURN_QUIT
     then throwing (throw_exception \<lparr>reason = r, error = NO_ERROR, message = None\<rparr>) v
     else if r = RETURN_ERROR
     then throwing (throw_exception \<lparr>reason = r, error = GENERIC_ERROR, message = None\<rparr>) v
     else (\<lambda>s. Some (Inl (Internal_error 256 ''bad switch''), s)))"
    by (auto simp add: throwing_def throw_reason_def Let_def fun_eq_iff)
  then show ?thesis
    by (simp add: well_nested_throw_exception) (simp add: well_nested_def)
qed

lemma restores_stack_restored: "restores s res \<Longrightarrow> stack_restored s res"
  unfolding restores_def stack_restored_def
  by (auto split: option.splits sum.splits exit.splits list.splits prod.splits)

lemma throw_exception_uiout: "uiout (snd (throw_exception e s)) = uiout s"
  by (cases "current_catcher s")
    (auto simp add: throw_exception_cleaned catcher_state_machine.simps split: catcher_state.splits)

lemma restores_sink_restored:
  assumes "restores s res"
  shows "sink_restored s res"
proof (cases res)
  case None
  with assms show ?thesis by (simp add: restores_def)
next
  case (Some p)
  obtain out s' where p: "p = (out, s')" by (cases p)
  show ?thesis
  proof (cases out)
    case (Inr v)
    with assms Some p show ?thesis
      by (simp add: restores_def sink_restored_def)
  next
    case (Inl x)
    show ?thesis
    proof (cases x)
      case (Longjmp b r)
      with assms Some p Inl obtain c prev sp where "current_catcher s = c # prev"
        and sp: "uiout sp = uiout s" "cleanup_chain sp = cleanup_chain s"
        and thrown: "throw_exception (exception_mem s' (exception c)) sp = (Inl (Longjmp b r), s')"
        by (auto simp add: restores_def split: list.splits)
      from throw_exception_uiout [of "exception_mem s' (exception c)" sp] thrown sp
      have "uiout s' = uiout s"
        by simp
      with sp thrown show ?thesis
        unfolding sink_restored_def Some p Inl Longjmp by auto
    qed (simp_all add: Some p Inl sink_restored_def)
  qed
qed

text \<open>The equations that evaluate the primitives on concrete states.\<close>

lemmas eval_defs = catch_errors_def catch_exception_def catch_exceptions_with_msg_def catch_command_errors_def
  throwing_def returning_def throw_reason_def throw_it_def throw_error_def throw_verror_def throw_vfatal_def
  protected_entry_eq catcher_init_eq catcher_pop_Cons
  local_exception_def XZALLOC_def bare_state_def Let_def
  catch_loop.simps catcher_state_machine.simps throw_exception_cleaned cleaned_def
  print_any_exception_def print_exception_def log_def exception_none_def
  RETURN_QUIT_def RETURN_ERROR_def RETURN_MASK_def RETURN_MASK_ALL_def RETURN_MASK_ERROR_def RETURN_MASK_QUIT_def

subsection \<open>Nested Catch invocations\<close>

lemma throws_restores:
  assumes "throws e func"
  shows "restores s (func s)"
proof -
  from assms obtain x s' sp where f: "func s = Some (Inl x, s')"
    and thrown: "throw_exception e sp = (Inl x, s')"
    and sp: "current_catcher sp = current_catcher s" "uiout sp = uiout s"
      "cleanup_chain sp = cleanup_chain s"
      "\<And>c. c \<in> set (current_catcher s) \<Longrightarrow>
         exception_mem sp (exception c) = exception_mem s (exception c)"
    unfolding throws_def by blast
  have "restores s (Some (Inl x, s') :: 'a result option)"
    using sp thrown by (rule throw_exception_restores)
  with f show ?thesis by simp
qed

lemma throws_well_nested: "throws e func \<Longrightarrow> well_nested func"
  by (rule restores_well_nested) (rule throws_restores)

lemma completes_well_nested: "completes func \<Longrightarrow> well_nested func"
  unfolding completes_def well_nested_def
proof
  fix s
  assume "\<forall>s. \<exists>v s'. func s = Some (Inr v, s') \<and> current_catcher s' = current_catcher s
        \<and> (\<forall>c \<in> set (current_catcher s).
              exception_mem s' (exception c) = exception_mem s (exception c))"
  then obtain v s' where "func s = Some (Inr v, s')" "current_catcher s' = current_catcher s"
    "\<forall>c \<in> set (current_catcher s). exception_mem s' (exception c) = exception_mem s (exception c)"
    by blast
  then show "case func s of
        None \<Rightarrow> False
      | Some (Inr v, s') \<Rightarrow>
          current_catcher s' = current_catcher s
          \<and> (\<forall>c \<in> set (current_catcher s).
                exception_mem s' (exception c) = exception_mem s (exception c))
      | Some (Inl (Longjmp b r), s') \<Rightarrow>
          (case current_catcher s of
             [] \<Rightarrow> False
           | c # prev \<Rightarrow>
               b = buf c \<and> current_catcher s' = c\<lparr>state := CATCHER_ABORTING\<rparr> # prev
               \<and> (\<forall>c' \<in> set prev. exception c' \<noteq> exception c \<longrightarrow>
                     exception_mem s' (exception c') = exception_mem s (exception c')))
      | Some (Inl _, s') \<Rightarrow> True"
    by simp
qed

lemma throws_throw_exception: "throws e (throwing (throw_exception e) v)"
  unfolding throws_def
proof
  fix s
  obtain y s' where thrown: "throw_exception e s = (Inl y, s')"
    using throw_exception_Inl by blast
  then have "throwing (throw_exception e) v s = Some (Inl y, s')"
    by (simp add: throwing_def)
  with thrown show "\<exists>x s' sp. throwing (throw_exception e) v s = Some (Inl x, s')
        \<and> throw_exception e sp = (Inl x, s')
        \<and> current_catcher sp = current_catcher s \<and> uiout sp = uiout s
        \<and> cleanup_chain sp = cleanup_chain s
        \<and> (\<forall>c \<in> set (current_catcher s).
              exception_mem sp (exception c) = exception_mem s (exception c))"
    by blast
qed

text \<open>What a Catch primitive finds when the operation it protects threw \<open>e\<close>.\<close>

lemma entry_throws:
  assumes "throws e func"
  obtains b r s2 where "func (protected_entry u m s) = Some (Inl (Longjmp b r), s2)"
    and "exception_mem s2 (local_exception s) = e"
    and "current_catcher s2 = pushed u m s CATCHER_ABORTING # current_catcher s"
    and "\<forall>c \<in> set (current_catcher s).
          exception_mem s2 (exception c) = exception_mem s (exception c)"
proof -
  let ?entry = "protected_entry u m s"
  from assms obtain x s2 sp where f: "func ?entry = Some (Inl x, s2)"
    and thrown: "throw_exception e sp = (Inl x, s2)"
    and sp: "current_catcher sp = current_catcher ?entry"
      "\<And>c. c \<in> set (current_catcher ?entry) \<Longrightarrow>
         exception_mem sp (exception c) = exception_mem ?entry (exception c)"
    unfolding throws_def by blast
  have top: "current_catcher sp = pushed u m s CATCHER_RUNNING # current_catcher s"
    using sp(1) by simp
  have running: "state (pushed u m s CATCHER_RUNNING) = CATCHER_RUNNING
      \<or> state (pushed u m s CATCHER_RUNNING) = CATCHER_RUNNING_1"
    by simp
  note eq = thrown [unfolded throw_exception_running [OF top running]]
  from eq have x: "x = Longjmp (XZALLOC s) (reason e)"
    by simp
  from eq have s2: "s2 = (cleaned sp)\<lparr>current_catcher :=
        pushed u m s CATCHER_ABORTING # current_catcher s,
        exception_mem := (exception_mem sp)(local_exception s := e)\<rparr>"
    by simp
  show thesis
  proof (rule that)
    show "func ?entry = Some (Inl (Longjmp (XZALLOC s) (reason e)), s2)"
      using f x by simp
    show "exception_mem s2 (local_exception s) = e"
      by (simp add: s2)
    show "current_catcher s2 = pushed u m s CATCHER_ABORTING # current_catcher s"
      by (simp add: s2)
    have "exception_mem s2 (exception c) = exception_mem s (exception c)"
      if "c \<in> set (current_catcher s)" for c
      using that sp(2) [of c] local_exception_fresh [OF that] by (simp add: s2)
    then show "\<forall>c \<in> set (current_catcher s).
        exception_mem s2 (exception c) = exception_mem s (exception c)"
      by blast
  qed
qed

lemma catch_exception_thrown:
  assumes thr: "throws e (func u args)"
  obtains s2 where "current_catcher s2 = pushed u m s CATCHER_ABORTING # current_catcher s"
    and "\<forall>c \<in> set (current_catcher s).
          exception_mem s2 (exception c) = exception_mem s (exception c)"
    and "catch_exception u func args m s =
      (if and m (RETURN_MASK (reason e)) \<noteq> 0 then Some (Inr e, snd (catcher_pop s2))
       else case throw_exception e (snd (catcher_pop s2)) of
              (x, s') \<Rightarrow> Some (Inl (projl x), s'))"
proof -
  obtain catch s1 where init: "catcher_init u (local_exception s) m s = (catch, s1)"
    by (cases "catcher_init u (local_exception s) m s")
  note loop = catch_loop_well_nested [OF throws_well_nested [OF thr] init, of "()"]
  from thr obtain b r s2 where f: "func u args (protected_entry u m s) = Some (Inl (Longjmp b r), s2)"
    and e: "exception_mem s2 (local_exception s) = e"
    and stack: "current_catcher s2 = pushed u m s CATCHER_ABORTING # current_catcher s"
    and mem: "\<forall>c \<in> set (current_catcher s).
          exception_mem s2 (exception c) = exception_mem s (exception c)"
    by (rule entry_throws [where u = u and m = m and s = s])
  obtain y s' where thrown: "throw_exception e (snd (catcher_pop s2)) = (Inl y, s')"
    using throw_exception_Inl by blast
  have popped_mem: "exception_mem (snd (catcher_pop s2)) = exception_mem s2"
    by (simp add: catcher_pop_pushed [OF stack])
  have "catch_exception u func args m s =
      (if and m (RETURN_MASK (reason e)) \<noteq> 0 then Some (Inr e, snd (catcher_pop s2))
       else case throw_exception e (snd (catcher_pop s2)) of
              (x, s') \<Rightarrow> Some (Inl (projl x), s'))"
    unfolding catch_exception_def
    by (simp add: init Let_def loop f e thrown popped_mem)
  with stack mem show thesis
    by (rule that)
qed

lemma catch_exception_claims:
  assumes thr: "throws e (func u args)" and yes: "and m (RETURN_MASK (reason e)) \<noteq> 0"
  shows "\<exists>s'. catch_exception u func args m s = Some (Inr e, s')
    \<and> current_catcher s' = current_catcher s
    \<and> (\<forall>c \<in> set (current_catcher s).
          exception_mem s' (exception c) = exception_mem s (exception c))"
proof -
  obtain s2 where stack: "current_catcher s2 = pushed u m s CATCHER_ABORTING # current_catcher s"
    and mem: "\<forall>c \<in> set (current_catcher s).
          exception_mem s2 (exception c) = exception_mem s (exception c)"
    and res: "catch_exception u func args m s =
      (if and m (RETURN_MASK (reason e)) \<noteq> 0 then Some (Inr e, snd (catcher_pop s2))
       else case throw_exception e (snd (catcher_pop s2)) of
              (x, s') \<Rightarrow> Some (Inl (projl x), s'))"
    using thr by (rule catch_exception_thrown [where u = u and args = args and m = m and s = s])
  from yes res have "catch_exception u func args m s = Some (Inr e, snd (catcher_pop s2))"
    by simp
  moreover have "current_catcher (snd (catcher_pop s2)) = current_catcher s"
    "\<forall>c \<in> set (current_catcher s).
       exception_mem (snd (catcher_pop s2)) (exception c) = exception_mem s (exception c)"
    by (simp_all add: catcher_pop_pushed [OF stack] mem)
  ultimately show ?thesis
    by blast
qed

lemma catch_exception_completes:
  assumes fin: "completes (func u args)"
  shows "\<exists>s'. catch_exception u func args m s = Some (Inr exception_none, s')
    \<and> current_catcher s' = current_catcher s
    \<and> (\<forall>c \<in> set (current_catcher s).
          exception_mem s' (exception c) = exception_mem s (exception c))"
proof -
  obtain catch s1 where init: "catcher_init u (local_exception s) m s = (catch, s1)"
    by (cases "catcher_init u (local_exception s) m s")
  note wn = completes_well_nested [OF fin]
  note loop = catch_loop_well_nested [OF wn init, of "()"]
  from fin obtain v s2 where f: "func u args (protected_entry u m s) = Some (Inr v, s2)"
    unfolding completes_def by blast
  note facts = entry_returned [OF wn f]
  have popped_mem: "exception_mem (snd (catcher_pop s2)) = exception_mem s2"
    by (simp add: catcher_pop_pushed [OF facts(1)])
  have "catch_exception u func args m s = Some (Inr exception_none, snd (catcher_pop s2))"
    unfolding catch_exception_def
    by (simp add: init Let_def loop f popped_mem facts(2))
  moreover have "current_catcher (snd (catcher_pop s2)) = current_catcher s"
    "\<forall>c \<in> set (current_catcher s).
       exception_mem (snd (catcher_pop s2)) (exception c) = exception_mem s (exception c)"
    by (simp_all add: catcher_pop_pushed [OF facts(1)] facts(3))
  ultimately show ?thesis
    by blast
qed

subsection \<open>The values that the primitives return\<close>

lemma print_any_exception_printable:
  assumes "reason e = RETURN_QUIT \<or> reason e = RETURN_ERROR"
  shows "fst (print_any_exception file prefix e s) = Inr ()"
  using assms
  by (auto simp add: print_any_exception_def print_exception_def Let_def)

lemma catch_errors_returned:
  assumes wn: "well_nested (func args)"
    and f: "func args (protected_entry (uiout s) m s) = Some (Inr v, s2)"
  shows "catch_errors func args errstring m s = Some (Inr v, snd (catcher_pop s2))"
proof -
  obtain catch s1 where init: "catcher_init (uiout s) (local_exception s) m s = (catch, s1)"
    by (cases "catcher_init (uiout s) (local_exception s) m s")
  note loop = catch_loop_well_nested [OF wn init, of 0]
  note facts = entry_returned [OF wn f]
  have popped_mem: "exception_mem (snd (catcher_pop s2)) = exception_mem s2"
    by (simp add: catcher_pop_pushed [OF facts(1)])
  show ?thesis
    unfolding catch_errors_def
    by (simp add: init Let_def loop f popped_mem facts(2) print_any_exception_none
        exception_none_def)
qed

lemma catch_errors_thrown:
  assumes wn: "well_nested (func args)"
    and f: "func args (protected_entry (uiout s) m s) = Some (Inl (Longjmp b r), s2)"
  shows "catch_errors func args errstring m s =
    (if and m (RETURN_MASK (reason (exception_mem s2 (local_exception s)))) \<noteq> 0
     then (case print_any_exception gdb_stderr errstring (exception_mem s2 (local_exception s))
                  (snd (catcher_pop s2)) of
             (Inl x, s3) \<Rightarrow> Some (Inl x, s3)
           | (Inr _, s3) \<Rightarrow> Some (Inr 0, s3))
     else (case throw_exception (exception_mem s2 (local_exception s)) (snd (catcher_pop s2)) of
             (x, s') \<Rightarrow> Some (Inl (projl x), s')))"
proof -
  obtain catch s1 where init: "catcher_init (uiout s) (local_exception s) m s = (catch, s1)"
    by (cases "catcher_init (uiout s) (local_exception s) m s")
  note loop = catch_loop_well_nested [OF wn init, of 0]
  note facts = entry_thrown [OF wn f]
  let ?e = "exception_mem s2 (local_exception s)"
  let ?sp = "snd (catcher_pop s2)"
  have popped_mem: "exception_mem ?sp = exception_mem s2"
    by (simp add: catcher_pop_pushed [OF facts(2)])
  obtain p s3 where printed: "print_any_exception gdb_stderr errstring ?e ?sp = (p, s3)"
    by (cases "print_any_exception gdb_stderr errstring ?e ?sp")
  note frame = printed_frame [OF printed]
  obtain y s' where thrown: "throw_exception ?e ?sp = (Inl y, s')"
    using throw_exception_Inl by blast
  show ?thesis
  proof (cases "and m (RETURN_MASK (reason ?e)) \<noteq> 0")
    case True
    then show ?thesis
      unfolding catch_errors_def
      by (cases p) (simp_all add: init Let_def loop f popped_mem printed frame(4))
  next
    case False
    then show ?thesis
      unfolding catch_errors_def
      by (simp add: init Let_def loop f thrown)
  qed
qed

lemma catch_errors_aborted:
  assumes wn: "well_nested (func args)"
    and f: "func args (protected_entry (uiout s) m s) = Some (Inl x, s2)"
    and x: "x = Null_deref \<or> (\<exists>l t. x = Internal_error l t)"
  shows "catch_errors func args errstring m s = Some (Inl x, s2)"
proof -
  obtain catch s1 where init: "catcher_init (uiout s) (local_exception s) m s = (catch, s1)"
    by (cases "catcher_init (uiout s) (local_exception s) m s")
  note loop = catch_loop_well_nested [OF wn init, of 0]
  from x show ?thesis
    unfolding catch_errors_def
    by (auto simp add: init Let_def loop f)
qed

lemma well_nested_throw_it: "well_nested (throwing (throw_it r k t) v)"
proof (rule restores_well_nested)
  fix s
  let ?e = "\<lparr>reason = r, error = k, message = Some t\<rparr>"
  obtain y s' where thrown: "throw_exception ?e (s\<lparr>last_message := Some t\<rparr>) = (Inl y, s')"
    using throw_exception_Inl by blast
  have "restores s (Some (Inl y, s') :: 'a result option)"
    by (rule throw_exception_restores [OF _ _ _ _ thrown]) simp_all
  then show "restores s (throwing (throw_it r k t) v s)"
    by (simp add: throwing_def throw_it_def Let_def thrown)
qed

lemma well_nested_throw_error: "well_nested (throwing (throw_error k t) v)"
proof -
  have "throw_error k t = throw_it RETURN_ERROR k t"
    by (simp add: fun_eq_iff throw_error_def)
  then show ?thesis
    by (simp add: well_nested_throw_it)
qed

lemma catch_exceptions_with_msg_returned:
  assumes wn: "well_nested (func u args)"
    and f: "func u args (protected_entry u m s) = Some (Inr v, s2)"
  shows "catch_exceptions_with_msg u func args g m s =
    (if 0 \<le> v then Some (Inr v, snd (catcher_pop s2))
     else Some (Inl (Internal_error 467 ''val >= 0''), snd (catcher_pop s2)))"
proof -
  obtain catch s1 where init: "catcher_init u (local_exception s) m s = (catch, s1)"
    by (cases "catcher_init u (local_exception s) m s")
  note loop = catch_loop_well_nested [OF wn init, of 0]
  note facts = entry_returned [OF wn f]
  have popped_mem: "exception_mem (snd (catcher_pop s2)) = exception_mem s2"
    by (simp add: catcher_pop_pushed [OF facts(1)])
  show ?thesis
    unfolding catch_exceptions_with_msg_def
    by (simp add: init Let_def loop f popped_mem facts(2) print_any_exception_none
        exception_none_def)
qed

lemma catch_exceptions_with_msg_thrown:
  assumes wn: "well_nested (func u args)"
    and f: "func u args (protected_entry u m s) = Some (Inl (Longjmp b r), s2)"
    and e: "e = exception_mem s2 (local_exception s)"
  shows "catch_exceptions_with_msg u func args g m s =
    (if and m (RETURN_MASK (reason e)) \<noteq> 0
     then (case print_any_exception gdb_stderr None e (snd (catcher_pop s2)) of
             (Inl x, s3) \<Rightarrow> Some (Inl x, s3)
           | (Inr _, s3) \<Rightarrow>
               if 0 < reason e
               then Some (Inl (Internal_error 468 ''exception.reason <= 0''), s3)
               else if reason e < 0
               then (case g of
                       None \<Rightarrow> Some (Inr (reason e), s3)
                     | Some p \<Rightarrow>
                         Some (Inr (reason e),
                               s3\<lparr>gdberrmsg_mem := (gdberrmsg_mem s3)(p := message e)\<rparr>))
               else Some (Inr 0, s3))
     else (case throw_exception e (snd (catcher_pop s2)) of
             (x, s') \<Rightarrow> Some (Inl (projl x), s')))"
proof -
  obtain catch s1 where init: "catcher_init u (local_exception s) m s = (catch, s1)"
    by (cases "catcher_init u (local_exception s) m s")
  note loop = catch_loop_well_nested [OF wn init, of 0]
  note facts = entry_thrown [OF wn f]
  let ?sp = "snd (catcher_pop s2)"
  have popped_mem: "exception_mem ?sp = exception_mem s2"
    by (simp add: catcher_pop_pushed [OF facts(2)])
  obtain p s3 where printed: "print_any_exception gdb_stderr None e ?sp = (p, s3)"
    by (cases "print_any_exception gdb_stderr None e ?sp")
  note frame = printed_frame [OF printed]
  obtain y s' where thrown: "throw_exception e ?sp = (Inl y, s')"
    using throw_exception_Inl by blast
  show ?thesis
  proof (cases "and m (RETURN_MASK (reason e)) \<noteq> 0")
    case True
    then show ?thesis
      unfolding catch_exceptions_with_msg_def
      by (cases p; cases g)
        (auto simp add: init Let_def loop f popped_mem printed frame(4) e [symmetric])
  next
    case False
    then show ?thesis
      unfolding catch_exceptions_with_msg_def
      by (simp add: init Let_def loop f thrown e [symmetric])
  qed
qed

lemma catch_exceptions_with_msg_aborted:
  assumes wn: "well_nested (func u args)"
    and f: "func u args (protected_entry u m s) = Some (Inl x, s2)"
    and x: "x = Null_deref \<or> (\<exists>l t. x = Internal_error l t)"
  shows "catch_exceptions_with_msg u func args g m s = Some (Inl x, s2)"
proof -
  obtain catch s1 where init: "catcher_init u (local_exception s) m s = (catch, s1)"
    by (cases "catcher_init u (local_exception s) m s")
  note loop = catch_loop_well_nested [OF wn init, of 0]
  from x show ?thesis
    unfolding catch_exceptions_with_msg_def
    by (auto simp add: init Let_def loop f)
qed

subsection \<open>Operations inside the loop of a primitive\<close>

lemma throws_and_return: "throws e f \<Longrightarrow> throws e (and_return v f)"
  unfolding throws_def
proof
  fix s
  assume "\<forall>s. \<exists>x s' sp. f s = Some (Inl x, s') \<and> throw_exception e sp = (Inl x, s')
        \<and> current_catcher sp = current_catcher s \<and> uiout sp = uiout s
        \<and> cleanup_chain sp = cleanup_chain s
        \<and> (\<forall>c \<in> set (current_catcher s).
              exception_mem sp (exception c) = exception_mem s (exception c))"
  then obtain x s' sp where "f s = Some (Inl x, s')" and rest: "throw_exception e sp = (Inl x, s')
        \<and> current_catcher sp = current_catcher s \<and> uiout sp = uiout s
        \<and> cleanup_chain sp = cleanup_chain s
        \<and> (\<forall>c \<in> set (current_catcher s).
              exception_mem sp (exception c) = exception_mem s (exception c))"
    by blast
  then have "and_return v f s = Some (Inl x, s')"
    by (simp add: and_return_def)
  with rest show "\<exists>x s' sp. and_return v f s = Some (Inl x, s')
        \<and> throw_exception e sp = (Inl x, s')
        \<and> current_catcher sp = current_catcher s \<and> uiout sp = uiout s
        \<and> cleanup_chain sp = cleanup_chain s
        \<and> (\<forall>c \<in> set (current_catcher s).
              exception_mem sp (exception c) = exception_mem s (exception c))"
    by blast
qed

lemma completes_and_return: "completes f \<Longrightarrow> completes (and_return v f)"
  unfolding completes_def
proof
  fix s
  assume "\<forall>s. \<exists>w s'. f s = Some (Inr w, s') \<and> current_catcher s' = current_catcher s
        \<and> (\<forall>c \<in> set (current_catcher s).
              exception_mem s' (exception c) = exception_mem s (exception c))"
  then obtain w s' where "f s = Some (Inr w, s')" and rest: "current_catcher s' = current_catcher s
        \<and> (\<forall>c \<in> set (current_catcher s).
              exception_mem s' (exception c) = exception_mem s (exception c))"
    by blast
  then have "and_return v f s = Some (Inr v, s')"
    by (simp add: and_return_def)
  with rest show "\<exists>w s'. and_return v f s = Some (Inr w, s')
        \<and> current_catcher s' = current_catcher s
        \<and> (\<forall>c \<in> set (current_catcher s).
              exception_mem s' (exception c) = exception_mem s (exception c))"
    by blast
qed

lemma completes_and_return_value:
  assumes "completes f"
  shows "\<exists>s'. and_return v f s = Some (Inr v, s')"
proof -
  from assms obtain w s' where "f s = Some (Inr w, s')"
    unfolding completes_def by blast
  then show ?thesis
    by (simp add: and_return_def)
qed

text \<open>The loop, when the operation throws \<open>e\<close> and when it returns.\<close>

lemma catch_loop_throws:
  assumes thr: "throws e func"
    and init: "catcher_init u (local_exception s) m s = (catch, s1)"
  obtains sp where "current_catcher sp = current_catcher s" and "uiout sp = uiout s"
    and "cleanup_chain sp = cleanup_chain s"
    and "\<forall>c \<in> set (current_catcher s).
          exception_mem sp (exception c) = exception_mem s (exception c)"
    and "exception_mem sp (local_exception s) = e"
    and "\<forall>val. catch_loop catch func val s1 =
      (if and m (RETURN_MASK (reason e)) \<noteq> 0 then Some (Inr val, sp)
       else case throw_exception e sp of (x, s') \<Rightarrow> Some (Inl (projl x), s'))"
proof -
  from thr obtain b r s2 where f: "func (protected_entry u m s) = Some (Inl (Longjmp b r), s2)"
    and e: "exception_mem s2 (local_exception s) = e"
    and stack: "current_catcher s2 = pushed u m s CATCHER_ABORTING # current_catcher s"
    and mem: "\<forall>c \<in> set (current_catcher s).
          exception_mem s2 (exception c) = exception_mem s (exception c)"
    by (rule entry_throws [where u = u and m = m and s = s])
  let ?sp = "snd (catcher_pop s2)"
  note sp = catcher_pop_pushed [OF stack]
  show thesis
  proof (rule that [of ?sp])
    show "current_catcher ?sp = current_catcher s" "uiout ?sp = uiout s"
      "cleanup_chain ?sp = cleanup_chain s"
      "\<forall>c \<in> set (current_catcher s).
          exception_mem ?sp (exception c) = exception_mem s (exception c)"
      "exception_mem ?sp (local_exception s) = e"
      by (simp_all add: sp mem e)
    show "\<forall>val. catch_loop catch func val s1 =
      (if and m (RETURN_MASK (reason e)) \<noteq> 0 then Some (Inr val, ?sp)
       else case throw_exception e ?sp of (x, s') \<Rightarrow> Some (Inl (projl x), s'))"
      by (simp add: catch_loop_well_nested [OF throws_well_nested [OF thr] init] f e)
  qed
qed

lemma catch_loop_completes:
  assumes fin: "completes func"
    and init: "catcher_init u (local_exception s) m s = (catch, s1)"
  obtains v sp where "current_catcher sp = current_catcher s" and "uiout sp = uiout s"
    and "cleanup_chain sp = cleanup_chain s"
    and "\<forall>c \<in> set (current_catcher s).
          exception_mem sp (exception c) = exception_mem s (exception c)"
    and "exception_mem sp (local_exception s) = exception_none"
    and "func (protected_entry u m s) = Some (Inr v, snd (the (func (protected_entry u m s))))"
    and "\<forall>val. catch_loop catch func val s1 = Some (Inr v, sp)"
proof -
  note wn = completes_well_nested [OF fin]
  from fin obtain v s2 where f: "func (protected_entry u m s) = Some (Inr v, s2)"
    unfolding completes_def by blast
  note facts = entry_returned [OF wn f]
  let ?sp = "snd (catcher_pop s2)"
  note sp = catcher_pop_pushed [OF facts(1)]
  show thesis
  proof (rule that [of ?sp v])
    show "current_catcher ?sp = current_catcher s" "uiout ?sp = uiout s"
      "cleanup_chain ?sp = cleanup_chain s"
      "\<forall>c \<in> set (current_catcher s).
          exception_mem ?sp (exception c) = exception_mem s (exception c)"
      "exception_mem ?sp (local_exception s) = exception_none"
      by (simp_all add: sp facts(2,3))
    show "func (protected_entry u m s) = Some (Inr v, snd (the (func (protected_entry u m s))))"
      by (simp add: f)
    show "\<forall>val. catch_loop catch func val s1 = Some (Inr v, ?sp)"
      by (simp add: catch_loop_well_nested [OF wn init] f)
  qed
qed

subsection \<open>The common shape of the primitives\<close>

lemma primitive_shapeI:
  assumes "\<And>s catch s1. catcher_init (sink s) (local_exception s) m s = (catch, s1) \<Longrightarrow>
    P s = (case catch_loop catch func val s1 of
             None \<Rightarrow> None
           | Some (Inl x, s2) \<Rightarrow> Some (Inl x, s2)
           | Some (Inr v, s2) \<Rightarrow> post s v s2)"
  shows "primitive_shape P sink m func val post"
  unfolding primitive_shape_def
proof
  fix s
  obtain catch s1 where init: "catcher_init (sink s) (local_exception s) m s = (catch, s1)"
    by (cases "catcher_init (sink s) (local_exception s) m s")
  from assms [OF init] show "P s =
        (case catch_loop (fst (catcher_init (sink s) (local_exception s) m s)) func val
                (snd (catcher_init (sink s) (local_exception s) m s)) of
           None \<Rightarrow> None
         | Some (Inl x, s2) \<Rightarrow> Some (Inl x, s2)
         | Some (Inr v, s2) \<Rightarrow> post s v s2)"
    by (simp add: init)
qed

lemma catch_exception_shape:
  "primitive_shape (catch_exception u func args m) (\<lambda>_. u) m (func u args) ()
     (\<lambda>s v s2. Some (Inr (exception_mem s2 (local_exception s)), s2))"
  by (rule primitive_shapeI) (simp add: catch_exception_def Let_def)

lemma catch_exceptions_with_msg_shape:
  "primitive_shape (catch_exceptions_with_msg u func args g m) (\<lambda>_. u) m (func u args) 0
     (\<lambda>s val s2.
        case print_any_exception gdb_stderr None (exception_mem s2 (local_exception s)) s2 of
          (Inl x, s3) \<Rightarrow> Some (Inl x, s3)
        | (Inr _, s3) \<Rightarrow>
            if \<not> val \<ge> 0 then Some (Inl (Internal_error 467 ''val >= 0''), s3)
            else if \<not> reason (exception_mem s3 (local_exception s)) \<le> 0
              then Some (Inl (Internal_error 468 ''exception.reason <= 0''), s3)
            else if reason (exception_mem s3 (local_exception s)) < 0
              then (case g of
                      None \<Rightarrow> Some (Inr (reason (exception_mem s3 (local_exception s))), s3)
                    | Some p \<Rightarrow>
                        Some (Inr (reason (exception_mem s3 (local_exception s))),
                              s3\<lparr>gdberrmsg_mem := (gdberrmsg_mem s3)
                                   (p := message (exception_mem s3 (local_exception s)))\<rparr>))
            else Some (Inr val, s3))"
  by (rule primitive_shapeI) (simp add: catch_exceptions_with_msg_def Let_def)

lemma catch_errors_shape:
  "primitive_shape (catch_errors func args errstring m) uiout m (func args) 0
     (\<lambda>s val s2.
        case print_any_exception gdb_stderr errstring (exception_mem s2 (local_exception s)) s2 of
          (Inl x, s3) \<Rightarrow> Some (Inl x, s3)
        | (Inr _, s3) \<Rightarrow>
            if reason (exception_mem s3 (local_exception s)) \<noteq> 0 then Some (Inr 0, s3)
            else Some (Inr val, s3))"
  by (rule primitive_shapeI) (simp add: catch_errors_def Let_def)

lemma catch_command_errors_shape:
  "primitive_shape (catch_command_errors command arg from_tty m) uiout m (command arg from_tty) ()
     (\<lambda>s val s2.
        case print_any_exception gdb_stderr None (exception_mem s2 (local_exception s)) s2 of
          (Inl x, s3) \<Rightarrow> Some (Inl x, s3)
        | (Inr _, s3) \<Rightarrow>
            if reason (exception_mem s3 (local_exception s)) < 0 then Some (Inr 0, s3)
            else Some (Inr 1, s3))"
  by (rule primitive_shapeI) (simp add: catch_command_errors_def Let_def)

lemma primitive_relays:
  assumes shape: "primitive_shape P sink m func val post"
    and thr: "throws e func" and lacks: "and m (RETURN_MASK (reason e)) = 0"
  shows "throws e P"
  unfolding throws_def
proof
  fix s
  obtain catch s1 where init: "catcher_init (sink s) (local_exception s) m s = (catch, s1)"
    by (cases "catcher_init (sink s) (local_exception s) m s")
  from thr init obtain sp where sp: "current_catcher sp = current_catcher s" "uiout sp = uiout s"
    "cleanup_chain sp = cleanup_chain s"
    "\<forall>c \<in> set (current_catcher s).
          exception_mem sp (exception c) = exception_mem s (exception c)"
    and loop: "\<forall>val. catch_loop catch func val s1 =
      (if and m (RETURN_MASK (reason e)) \<noteq> 0 then Some (Inr val, sp)
       else case throw_exception e sp of (x, s') \<Rightarrow> Some (Inl (projl x), s'))"
    by (rule catch_loop_throws)
  obtain y s' where thrown: "throw_exception e sp = (Inl y, s')"
    using throw_exception_Inl by blast
  from shape have "P s = Some (Inl y, s')"
    unfolding primitive_shape_def by (simp add: init loop lacks thrown)
  with thrown sp show "\<exists>x s' sp. P s = Some (Inl x, s') \<and> throw_exception e sp = (Inl x, s')
        \<and> current_catcher sp = current_catcher s \<and> uiout sp = uiout s
        \<and> cleanup_chain sp = cleanup_chain s
        \<and> (\<forall>c \<in> set (current_catcher s).
              exception_mem sp (exception c) = exception_mem s (exception c))"
    by blast
qed

lemma primitive_claims:
  assumes shape: "primitive_shape P sink m func val post"
    and thr: "throws e func" and has: "and m (RETURN_MASK (reason e)) \<noteq> 0"
  shows "\<exists>sp. current_catcher sp = current_catcher s
    \<and> (\<forall>c \<in> set (current_catcher s).
          exception_mem sp (exception c) = exception_mem s (exception c))
    \<and> exception_mem sp (local_exception s) = e \<and> P s = post s val sp"
proof -
  obtain catch s1 where init: "catcher_init (sink s) (local_exception s) m s = (catch, s1)"
    by (cases "catcher_init (sink s) (local_exception s) m s")
  from thr init obtain sp where sp: "current_catcher sp = current_catcher s"
    "\<forall>c \<in> set (current_catcher s).
          exception_mem sp (exception c) = exception_mem s (exception c)"
    "exception_mem sp (local_exception s) = e"
    and loop: "\<forall>val. catch_loop catch func val s1 =
      (if and m (RETURN_MASK (reason e)) \<noteq> 0 then Some (Inr val, sp)
       else case throw_exception e sp of (x, s') \<Rightarrow> Some (Inl (projl x), s'))"
    by (rule catch_loop_throws)
  from shape have "P s = post s val sp"
    unfolding primitive_shape_def by (simp add: init loop has)
  with sp show ?thesis
    by blast
qed

lemma primitive_completes:
  assumes shape: "primitive_shape P sink m func val post"
    and fin: "completes func"
  shows "\<exists>v sp. current_catcher sp = current_catcher s
    \<and> (\<forall>c \<in> set (current_catcher s).
          exception_mem sp (exception c) = exception_mem s (exception c))
    \<and> exception_mem sp (local_exception s) = exception_none
    \<and> func (protected_entry (sink s) m s)
        = Some (Inr v, snd (the (func (protected_entry (sink s) m s))))
    \<and> P s = post s v sp"
proof -
  obtain catch s1 where init: "catcher_init (sink s) (local_exception s) m s = (catch, s1)"
    by (cases "catcher_init (sink s) (local_exception s) m s")
  from fin init obtain v sp where sp: "current_catcher sp = current_catcher s"
    "\<forall>c \<in> set (current_catcher s).
          exception_mem sp (exception c) = exception_mem s (exception c)"
    "exception_mem sp (local_exception s) = exception_none"
    "func (protected_entry (sink s) m s)
        = Some (Inr v, snd (the (func (protected_entry (sink s) m s))))"
    and loop: "\<forall>val. catch_loop catch func val s1 = Some (Inr v, sp)"
    by (rule catch_loop_completes)
  from shape have "P s = post s v sp"
    unfolding primitive_shape_def by (simp add: init loop)
  with sp show ?thesis
    by blast
qed

lemma and_return_value: "and_return w f s = Some (Inr v, s') \<Longrightarrow> v = w"
  by (auto simp add: and_return_def split: option.splits prod.splits sum.splits)

lemma primitive_claims_completes:
  assumes shape: "primitive_shape P sink m func val post"
    and thr: "throws e func" and has: "and m (RETURN_MASK (reason e)) \<noteq> 0"
    and post: "\<And>s sp. exception_mem sp (local_exception s) = e \<Longrightarrow>
      \<exists>w s3. post s val sp = Some (Inr w, s3) \<and> current_catcher s3 = current_catcher sp
        \<and> exception_mem s3 = exception_mem sp"
  shows "completes P"
  unfolding completes_def
proof
  fix s
  from primitive_claims [OF shape thr has, of s]
  obtain sp where sp: "current_catcher sp = current_catcher s"
    "\<forall>c \<in> set (current_catcher s).
          exception_mem sp (exception c) = exception_mem s (exception c)"
    and e: "exception_mem sp (local_exception s) = e" and P: "P s = post s val sp"
    by blast
  from post [OF e] obtain w s3 where "post s val sp = Some (Inr w, s3)"
    "current_catcher s3 = current_catcher sp" "exception_mem s3 = exception_mem sp"
    by blast
  with sp P show "\<exists>v s'. P s = Some (Inr v, s') \<and> current_catcher s' = current_catcher s
        \<and> (\<forall>c \<in> set (current_catcher s).
              exception_mem s' (exception c) = exception_mem s (exception c))"
    by simp
qed

lemma primitive_completes_completes:
  assumes shape: "primitive_shape P sink m func val post"
    and fin: "completes func"
    and post: "\<And>s v sp s2. exception_mem sp (local_exception s) = exception_none \<Longrightarrow>
      func (protected_entry (sink s) m s) = Some (Inr v, s2) \<Longrightarrow>
      \<exists>w s3. post s v sp = Some (Inr w, s3) \<and> current_catcher s3 = current_catcher sp
        \<and> exception_mem s3 = exception_mem sp"
  shows "completes P"
  unfolding completes_def
proof
  fix s
  from primitive_completes [OF shape fin, of s]
  obtain v sp where sp: "current_catcher sp = current_catcher s"
    "\<forall>c \<in> set (current_catcher s).
          exception_mem sp (exception c) = exception_mem s (exception c)"
    and none: "exception_mem sp (local_exception s) = exception_none"
    and f: "func (protected_entry (sink s) m s)
        = Some (Inr v, snd (the (func (protected_entry (sink s) m s))))"
    and P: "P s = post s v sp"
    by blast
  from post [OF none f] obtain w s3 where "post s v sp = Some (Inr w, s3)"
    "current_catcher s3 = current_catcher sp" "exception_mem s3 = exception_mem sp"
    by blast
  with sp P show "\<exists>v s'. P s = Some (Inr v, s') \<and> current_catcher s' = current_catcher s
        \<and> (\<forall>c \<in> set (current_catcher s).
              exception_mem s' (exception c) = exception_mem s (exception c))"
    by simp
qed

text \<open>What the primitives do with the value of the loop, for a printable exception.\<close>

lemma printed_printable:
  assumes "reason e = RETURN_QUIT \<or> reason e = RETURN_ERROR \<or> reason e = 0"
  obtains s3 where "print_any_exception file prefix e sp = (Inr (), s3)"
    and "current_catcher s3 = current_catcher sp" and "exception_mem s3 = exception_mem sp"
proof -
  obtain p s3 where printed: "print_any_exception file prefix e sp = (p, s3)"
    by (cases "print_any_exception file prefix e sp")
  have "fst (print_any_exception file prefix e sp) = Inr ()"
  proof (cases "reason e = 0")
    case True
    then show ?thesis by (simp add: print_any_exception_none)
  next
    case False
    with assms show ?thesis by (intro print_any_exception_printable) simp
  qed
  with printed have "p = Inr ()"
    by simp
  with printed printed_frame(1,4) [OF printed] show thesis
    by (intro that [of s3]) simp_all
qed

lemma catch_exceptions_with_msg_post:
  assumes "reason (exception_mem sp a) = RETURN_QUIT
      \<or> reason (exception_mem sp a) = RETURN_ERROR \<or> reason (exception_mem sp a) = 0"
    and "0 \<le> val"
  shows "\<exists>w s3.
      (case print_any_exception gdb_stderr None (exception_mem sp a) sp of
          (Inl x, s3) \<Rightarrow> Some (Inl x, s3)
        | (Inr _, s3) \<Rightarrow>
            if \<not> val \<ge> 0 then Some (Inl (Internal_error 467 ''val >= 0''), s3)
            else if \<not> reason (exception_mem s3 a) \<le> 0
              then Some (Inl (Internal_error 468 ''exception.reason <= 0''), s3)
            else if reason (exception_mem s3 a) < 0
              then (case g of
                      None \<Rightarrow> Some (Inr (reason (exception_mem s3 a)), s3)
                    | Some p \<Rightarrow>
                        Some (Inr (reason (exception_mem s3 a)),
                              s3\<lparr>gdberrmsg_mem := (gdberrmsg_mem s3)
                                   (p := message (exception_mem s3 a))\<rparr>))
            else Some (Inr val, s3)) = Some (Inr w, s3)
      \<and> current_catcher s3 = current_catcher sp \<and> exception_mem s3 = exception_mem sp"
proof -
  from assms(1) obtain s3 where printed:
    "print_any_exception gdb_stderr None (exception_mem sp a) sp = (Inr (), s3)"
    and frame: "current_catcher s3 = current_catcher sp" "exception_mem s3 = exception_mem sp"
    by (rule printed_printable)
  from assms(1) have "reason (exception_mem sp a) \<le> 0"
    by (auto simp add: RETURN_QUIT_def RETURN_ERROR_def)
  with assms(2) frame show ?thesis
    by (cases g) (simp_all add: printed)
qed

lemma catch_errors_post:
  assumes "reason (exception_mem sp a) = RETURN_QUIT
      \<or> reason (exception_mem sp a) = RETURN_ERROR \<or> reason (exception_mem sp a) = 0"
  shows "\<exists>w s3.
      (case print_any_exception gdb_stderr errstring (exception_mem sp a) sp of
          (Inl x, s3) \<Rightarrow> Some (Inl x, s3)
        | (Inr _, s3) \<Rightarrow>
            if reason (exception_mem s3 a) \<noteq> 0 then Some (Inr 0, s3)
            else Some (Inr val, s3)) = Some (Inr w, s3)
      \<and> current_catcher s3 = current_catcher sp \<and> exception_mem s3 = exception_mem sp"
proof -
  from assms(1) obtain s3 where printed:
    "print_any_exception gdb_stderr errstring (exception_mem sp a) sp = (Inr (), s3)"
    and frame: "current_catcher s3 = current_catcher sp" "exception_mem s3 = exception_mem sp"
    by (rule printed_printable)
  with frame show ?thesis
    by (simp add: printed)
qed

lemma catch_command_errors_post:
  assumes "reason (exception_mem sp a) = RETURN_QUIT
      \<or> reason (exception_mem sp a) = RETURN_ERROR \<or> reason (exception_mem sp a) = 0"
  shows "\<exists>w s3.
      (case print_any_exception gdb_stderr None (exception_mem sp a) sp of
          (Inl x, s3) \<Rightarrow> Some (Inl x, s3)
        | (Inr _, s3) \<Rightarrow>
            if reason (exception_mem s3 a) < 0 then Some (Inr (0 :: int), s3)
            else Some (Inr 1, s3)) = Some (Inr w, s3)
      \<and> current_catcher s3 = current_catcher sp \<and> exception_mem s3 = exception_mem sp"
proof -
  from assms(1) obtain s3 where printed:
    "print_any_exception gdb_stderr None (exception_mem sp a) sp = (Inr (), s3)"
    and frame: "current_catcher s3 = current_catcher sp" "exception_mem s3 = exception_mem sp"
    by (rule printed_printable)
  with frame show ?thesis
    by (simp add: printed)
qed

lemma catch_exceptions_fun:
  "catch_exceptions u func args m = catch_exceptions_with_msg u func args None m"
  by (simp add: fun_eq_iff catch_exceptions_def)

lemma invoke_relays:
  assumes thr: "throws e f" and lacks: "and (mask_of c) (RETURN_MASK (reason e)) = 0"
  shows "throws e (invoke c f)"
proof (cases c)
  case (Catch_exception u m)
  with lacks have "throws e (catch_exception u (\<lambda>_ _. f) () m)"
    by (intro primitive_relays [OF catch_exception_shape]) (simp_all add: thr)
  then show ?thesis
    by (simp add: Catch_exception throws_and_return)
next
  case (Catch_exceptions_with_msg u g m)
  with lacks have "throws e (catch_exceptions_with_msg u (\<lambda>_ _. and_return 0 f) () g m)"
    by (intro primitive_relays [OF catch_exceptions_with_msg_shape])
      (simp_all add: thr throws_and_return)
  then show ?thesis
    by (simp add: Catch_exceptions_with_msg throws_and_return)
next
  case (Catch_exceptions u m)
  with lacks have "throws e (catch_exceptions_with_msg u (\<lambda>_ _. and_return 0 f) () None m)"
    by (intro primitive_relays [OF catch_exceptions_with_msg_shape])
      (simp_all add: thr throws_and_return)
  then show ?thesis
    by (simp add: Catch_exceptions throws_and_return catch_exceptions_fun)
next
  case (Catch_errors errstring m)
  with lacks have "throws e (catch_errors (\<lambda>_. and_return 0 f) () errstring m)"
    by (intro primitive_relays [OF catch_errors_shape]) (simp_all add: thr throws_and_return)
  then show ?thesis
    by (simp add: Catch_errors throws_and_return)
next
  case (Catch_command_errors arg from_tty m)
  with lacks have "throws e (catch_command_errors (\<lambda>_ _. f) arg from_tty m)"
    by (intro primitive_relays [OF catch_command_errors_shape]) (simp_all add: thr)
  then show ?thesis
    by (simp add: Catch_command_errors throws_and_return)
qed

subsection \<open>Nests of any of the primitives\<close>

lemma invoke_claims:
  assumes thr: "throws e f" and has: "and (mask_of c) (RETURN_MASK (reason e)) \<noteq> 0"
    and valid: "reason e = RETURN_QUIT \<or> reason e = RETURN_ERROR"
  shows "completes (invoke c f)"
proof (cases c)
  case (Catch_exception u m)
  with has have "completes (catch_exception u (\<lambda>_ _. f) () m)"
    by (intro primitive_claims_completes [OF catch_exception_shape, where e = e])
      (simp_all add: thr)
  then show ?thesis
    by (simp add: Catch_exception completes_and_return)
next
  case (Catch_exceptions_with_msg u g m)
  with has valid have "completes (catch_exceptions_with_msg u (\<lambda>_ _. and_return 0 f) () g m)"
    by (intro primitive_claims_completes [OF catch_exceptions_with_msg_shape, where e = e]
        catch_exceptions_with_msg_post) (auto simp add: thr throws_and_return)
  then show ?thesis
    by (simp add: Catch_exceptions_with_msg completes_and_return)
next
  case (Catch_exceptions u m)
  with has valid have "completes (catch_exceptions_with_msg u (\<lambda>_ _. and_return 0 f) () None m)"
    by (intro primitive_claims_completes [OF catch_exceptions_with_msg_shape, where e = e]
        catch_exceptions_with_msg_post) (auto simp add: thr throws_and_return)
  then show ?thesis
    by (simp add: Catch_exceptions completes_and_return catch_exceptions_fun)
next
  case (Catch_errors errstring m)
  with has valid have "completes (catch_errors (\<lambda>_. and_return 0 f) () errstring m)"
    by (intro primitive_claims_completes [OF catch_errors_shape, where e = e]
        catch_errors_post) (auto simp add: thr throws_and_return)
  then show ?thesis
    by (simp add: Catch_errors completes_and_return)
next
  case (Catch_command_errors arg from_tty m)
  with has valid have "completes (catch_command_errors (\<lambda>_ _. f) arg from_tty m)"
    by (intro primitive_claims_completes [OF catch_command_errors_shape, where e = e]
        catch_command_errors_post) (auto simp add: thr)
  then show ?thesis
    by (simp add: Catch_command_errors completes_and_return)
qed

lemma invoke_completes:
  assumes fin: "completes f"
  shows "completes (invoke c f)"
proof (cases c)
  case (Catch_exception u m)
  have "completes (catch_exception u (\<lambda>_ _. f) () m)"
    by (rule primitive_completes_completes [OF catch_exception_shape]) (simp_all add: fin)
  then show ?thesis
    by (simp add: Catch_exception completes_and_return)
next
  case (Catch_exceptions_with_msg u g m)
  have "completes (catch_exceptions_with_msg u (\<lambda>_ _. and_return 0 f) () g m)"
  proof (rule primitive_completes_completes [OF catch_exceptions_with_msg_shape], goal_cases)
    case 1
    from fin show ?case by (rule completes_and_return)
  next
    case (2 s v sp s2)
    from 2(2) have "0 \<le> v"
      by (auto dest: and_return_value)
    moreover from 2(1) have "reason (exception_mem sp (local_exception s)) = RETURN_QUIT
      \<or> reason (exception_mem sp (local_exception s)) = RETURN_ERROR
      \<or> reason (exception_mem sp (local_exception s)) = 0"
      by (simp add: exception_none_def)
    ultimately show ?case
      by (intro catch_exceptions_with_msg_post)
  qed
  then show ?thesis
    by (simp add: Catch_exceptions_with_msg completes_and_return)
next
  case (Catch_exceptions u m)
  have "completes (catch_exceptions_with_msg u (\<lambda>_ _. and_return 0 f) () None m)"
  proof (rule primitive_completes_completes [OF catch_exceptions_with_msg_shape], goal_cases)
    case 1
    from fin show ?case by (rule completes_and_return)
  next
    case (2 s v sp s2)
    from 2(2) have "0 \<le> v"
      by (auto dest: and_return_value)
    moreover from 2(1) have "reason (exception_mem sp (local_exception s)) = RETURN_QUIT
      \<or> reason (exception_mem sp (local_exception s)) = RETURN_ERROR
      \<or> reason (exception_mem sp (local_exception s)) = 0"
      by (simp add: exception_none_def)
    ultimately show ?case
      by (intro catch_exceptions_with_msg_post)
  qed
  then show ?thesis
    by (simp add: Catch_exceptions completes_and_return catch_exceptions_fun)
next
  case (Catch_errors errstring m)
  have "completes (catch_errors (\<lambda>_. and_return 0 f) () errstring m)"
  proof (rule primitive_completes_completes [OF catch_errors_shape], goal_cases)
    case 1
    from fin show ?case by (rule completes_and_return)
  next
    case (2 s v sp s2)
    from 2(1) have "reason (exception_mem sp (local_exception s)) = RETURN_QUIT
      \<or> reason (exception_mem sp (local_exception s)) = RETURN_ERROR
      \<or> reason (exception_mem sp (local_exception s)) = 0"
      by (simp add: exception_none_def)
    then show ?case
      by (intro catch_errors_post)
  qed
  then show ?thesis
    by (simp add: Catch_errors completes_and_return)
next
  case (Catch_command_errors arg from_tty m)
  have "completes (catch_command_errors (\<lambda>_ _. f) arg from_tty m)"
  proof (rule primitive_completes_completes [OF catch_command_errors_shape], goal_cases)
    case 1
    from fin show ?case .
  next
    case (2 s v sp s2)
    from 2(1) have "reason (exception_mem sp (local_exception s)) = RETURN_QUIT
      \<or> reason (exception_mem sp (local_exception s)) = RETURN_ERROR
      \<or> reason (exception_mem sp (local_exception s)) = 0"
      by (simp add: exception_none_def)
    then show ?case
      by (intro catch_command_errors_post)
  qed
  then show ?thesis
    by (simp add: Catch_command_errors completes_and_return)
qed

lemma nested_throws:
  assumes "throws e op" and "\<forall>c \<in> set cs. and (mask_of c) (RETURN_MASK (reason e)) = 0"
  shows "throws e (nested_catch cs op)"
  using assms(2)
proof (induction cs)
  case Nil
  with assms(1) show ?case by simp
next
  case (Cons c cs)
  then show ?case
    by (simp add: invoke_relays)
qed

lemma nested_completes:
  assumes "completes op"
  shows "completes (nested_catch outer op)"
  using assms by (induction outer) (simp_all add: invoke_completes)

lemma nested_append: "nested_catch (outer @ cs) op = nested_catch outer (nested_catch cs op)"
  by (induction outer) simp_all

lemmas eval_nested = nested_catch.simps invoke.simps and_return_def

subsection \<open>The transition table\<close>

text \<open>
  C1. The state machine implements the transition table. From \<open>CATCHER_CREATED\<close>,
  \<open>CATCH_ITER\<close> moves to \<open>CATCHER_RUNNING\<close> and returns 1. From \<open>CATCHER_RUNNING\<close>,
  \<open>CATCH_ITER\<close> pops the catcher and returns 0, \<open>CATCH_ITER_1\<close> moves to
  \<open>CATCHER_RUNNING_1\<close> and returns 1, \<open>CATCH_THROWING\<close> moves to \<open>CATCHER_ABORTING\<close> and
  returns 1. From \<open>CATCHER_RUNNING_1\<close>, \<open>CATCH_ITER\<close> pops the catcher and returns 0,
  \<open>CATCH_ITER_1\<close> moves to \<open>CATCHER_RUNNING\<close> and returns 0, \<open>CATCH_THROWING\<close> moves to
  \<open>CATCHER_ABORTING\<close> and returns 1. From \<open>CATCHER_ABORTING\<close>, \<open>CATCH_ITER\<close> reads
  the exception of the catcher: when the mask of the catcher contains its reason, the
  catcher is popped and 0 returned; otherwise the catcher is popped and the same
  exception thrown again, and what \<^verbatim>\<open>throw_exception\<close> does then is what the state
  machine does. Every other pair of state and action is an internal error, with the
  state left as it was. Popping succeeds and leaves the catchers under the top one.
\<close>

theorem catcher_state_machine_table:
  "catcher_state_machine CATCH_ITER (on_top s c prev CATCHER_CREATED)
     = (Inr 1, on_top s c prev CATCHER_RUNNING)
   \<and> catcher_state_machine CATCH_ITER (on_top s c prev CATCHER_RUNNING)
     = (Inr 0, snd (catcher_pop (on_top s c prev CATCHER_RUNNING)))
   \<and> catcher_state_machine CATCH_ITER_1 (on_top s c prev CATCHER_RUNNING)
     = (Inr 1, on_top s c prev CATCHER_RUNNING_1)
   \<and> catcher_state_machine CATCH_THROWING (on_top s c prev CATCHER_RUNNING)
     = (Inr 1, on_top s c prev CATCHER_ABORTING)
   \<and> catcher_state_machine CATCH_ITER (on_top s c prev CATCHER_RUNNING_1)
     = (Inr 0, snd (catcher_pop (on_top s c prev CATCHER_RUNNING_1)))
   \<and> catcher_state_machine CATCH_ITER_1 (on_top s c prev CATCHER_RUNNING_1)
     = (Inr 0, on_top s c prev CATCHER_RUNNING)
   \<and> catcher_state_machine CATCH_THROWING (on_top s c prev CATCHER_RUNNING_1)
     = (Inr 1, on_top s c prev CATCHER_ABORTING)
   \<and> catcher_state_machine CATCH_ITER (on_top s c prev CATCHER_ABORTING)
     = (if and (mask_c c) (RETURN_MASK (reason (exception_mem s (exception c)))) \<noteq> 0
        then (Inr 0, snd (catcher_pop (on_top s c prev CATCHER_ABORTING)))
        else case throw_exception (exception_mem s (exception c))
                    (snd (catcher_pop (on_top s c prev CATCHER_ABORTING))) of
               (x, s') \<Rightarrow> (Inl (projl x), s'))
   \<and> isl (fst (throw_exception (exception_mem s (exception c))
                 (snd (catcher_pop (on_top s c prev CATCHER_ABORTING)))))
   \<and> catcher_state_machine CATCH_ITER_1 (on_top s c prev CATCHER_CREATED)
     = (Inl (Internal_error 148 ''bad state''), on_top s c prev CATCHER_CREATED)
   \<and> catcher_state_machine CATCH_THROWING (on_top s c prev CATCHER_CREATED)
     = (Inl (Internal_error 148 ''bad state''), on_top s c prev CATCHER_CREATED)
   \<and> catcher_state_machine CATCH_ITER_1 (on_top s c prev CATCHER_ABORTING)
     = (Inl (Internal_error 205 ''bad state''), on_top s c prev CATCHER_ABORTING)
   \<and> catcher_state_machine CATCH_THROWING (on_top s c prev CATCHER_ABORTING)
     = (Inl (Internal_error 205 ''bad state''), on_top s c prev CATCHER_ABORTING)
   \<and> fst (catcher_pop (on_top s c prev st)) = Inr ()
   \<and> current_catcher (snd (catcher_pop (on_top s c prev st))) = prev"
proof -
  obtain x s' where thrown:
    "throw_exception (exception_mem s (exception c))
       (snd (catcher_pop (on_top s c prev CATCHER_ABORTING))) = (Inl x, s')"
    using throw_exception_Inl by blast
  have aborting: "catcher_state_machine CATCH_ITER (on_top s c prev CATCHER_ABORTING)
     = (if and (mask_c c) (RETURN_MASK (reason (exception_mem s (exception c)))) \<noteq> 0
        then (Inr 0, snd (catcher_pop (on_top s c prev CATCHER_ABORTING)))
        else case throw_exception (exception_mem s (exception c))
                    (snd (catcher_pop (on_top s c prev CATCHER_ABORTING))) of
               (x, s') \<Rightarrow> (Inl (projl x), s'))"
    using thrown by (simp add: catcher_state_machine.simps catcher_pop_Cons)
  have noreturn: "isl (fst (throw_exception (exception_mem s (exception c))
                 (snd (catcher_pop (on_top s c prev CATCHER_ABORTING)))))"
    using thrown by simp
  show ?thesis
    unfolding aborting [symmetric]
    using noreturn by (simp add: catcher_state_machine.simps catcher_pop_Cons)
qed

subsection \<open>\<^verbatim>\<open>throw_exception\<close>\<close>

text \<open>
  C3. \<^verbatim>\<open>throw_exception\<close> clears \<^verbatim>\<open>quit_flag\<close> and \<^verbatim>\<open>immediate_quit\<close>, clears the
  queued breakpoint actions, disables the current display, runs the cleanups (those
  of the two execution scopes when their modes are active), and only then drives the
  state machine with \<open>CATCH_THROWING\<close>; when the machine lets it through, it writes
  the exception into the status buffer of the top catcher and jumps to the buffer of
  that catcher with the reason of the exception. With the top catcher running this
  is the whole effect, the trace giving the order. It never returns.
\<close>

theorem throw_exception_sequence:
  "throw_exception e s =
     (case catcher_state_machine CATCH_THROWING
             (s\<lparr>quit_flag := 0, immediate_quit := 0, cleanup_chain := [],
                trace := trace s @ [Store_quit_flag 0, Store_immediate_quit 0,
                  Call_bpstat_clear_actions, Call_disable_current_display,
                  Call_do_cleanups (cleanup_chain s)]
                  @ (if target_can_async_p s \<and> target_executing s = 0
                     then [Call_do_exec_cleanups] else [])
                  @ (if sync_execution s \<noteq> 0 then [Call_do_exec_error_cleanups] else [])\<rparr>) of
        (Inl x, s') \<Rightarrow> (Inl x, s')
      | (Inr _, s') \<Rightarrow>
          (case current_catcher s' of
             [] \<Rightarrow> (Inl Null_deref, s')
           | c # prev \<Rightarrow>
               (Inl (Longjmp (buf c) (reason e)),
                s'\<lparr>exception_mem := (exception_mem s')(exception c := e)\<rparr>)))
   \<and> throw_exception e (on_top s c prev CATCHER_RUNNING) =
       (Inl (Longjmp (buf c) (reason e)),
        s\<lparr>quit_flag := 0, immediate_quit := 0, cleanup_chain := [],
          trace := trace s @ [Store_quit_flag 0, Store_immediate_quit 0,
            Call_bpstat_clear_actions, Call_disable_current_display,
            Call_do_cleanups (cleanup_chain s)]
            @ (if target_can_async_p s \<and> target_executing s = 0
               then [Call_do_exec_cleanups] else [])
            @ (if sync_execution s \<noteq> 0 then [Call_do_exec_error_cleanups] else []),
          current_catcher := c\<lparr>state := CATCHER_ABORTING\<rparr> # prev,
          exception_mem := (exception_mem s)(exception c := e)\<rparr>)
   \<and> throw_exception e (on_top s c prev CATCHER_RUNNING_1) =
       (Inl (Longjmp (buf c) (reason e)),
        s\<lparr>quit_flag := 0, immediate_quit := 0, cleanup_chain := [],
          trace := trace s @ [Store_quit_flag 0, Store_immediate_quit 0,
            Call_bpstat_clear_actions, Call_disable_current_display,
            Call_do_cleanups (cleanup_chain s)]
            @ (if target_can_async_p s \<and> target_executing s = 0
               then [Call_do_exec_cleanups] else [])
            @ (if sync_execution s \<noteq> 0 then [Call_do_exec_error_cleanups] else []),
          current_catcher := c\<lparr>state := CATCHER_ABORTING\<rparr> # prev,
          exception_mem := (exception_mem s)(exception c := e)\<rparr>)
   \<and> isl (fst (throw_exception e s))"
proof -
  have first: "throw_exception e s =
     (case catcher_state_machine CATCH_THROWING (cleaned s) of
        (Inl x, s') \<Rightarrow> (Inl x, s')
      | (Inr _, s') \<Rightarrow>
          (case current_catcher s' of
             [] \<Rightarrow> (Inl Null_deref, s')
           | c # prev \<Rightarrow>
               (Inl (Longjmp (buf c) (reason e)),
                s'\<lparr>exception_mem := (exception_mem s')(exception c := e)\<rparr>)))"
    by (rule throw_exception_cleaned)
  have running: "throw_exception e (on_top s c prev st) =
       (Inl (Longjmp (buf c) (reason e)),
        (cleaned s)\<lparr>current_catcher := c\<lparr>state := CATCHER_ABORTING\<rparr> # prev,
          exception_mem := (exception_mem s)(exception c := e)\<rparr>)"
    if "st = CATCHER_RUNNING \<or> st = CATCHER_RUNNING_1" for st
    using that
    by (subst throw_exception_running [where c = "c\<lparr>state := st\<rparr>" and prev = prev])
      (auto simp add: cleaned_def)
  have never: "isl (fst (throw_exception e s))"
    using throw_exception_Inl [of e s] by auto
  show ?thesis
    using first running [of CATCHER_RUNNING] running [of CATCHER_RUNNING_1] never
    by (simp add: cleaned_def)
qed

subsection \<open>Throwing with no catcher\<close>

text \<open>
  C8, as the code has it. No Throw primitive checks for an empty catcher stack. With
  no catcher, \<^verbatim>\<open>throw_exception\<close> clears the flags and runs the cleanups, and the state
  machine then dereferences the null \<^verbatim>\<open>current_catcher\<close>: an undefined behaviour, not
  an internal error, and no diagnostic. So do the primitives that end in
  \<^verbatim>\<open>throw_exception\<close>. Only \<^verbatim>\<open>throw_reason\<close> with a reason that is neither
  \<^verbatim>\<open>RETURN_QUIT\<close> nor \<^verbatim>\<open>RETURN_ERROR\<close> ends in an internal error, and it does so
  before it looks at any catcher: whatever the catcher stack, empty or not.
\<close>

theorem throw_without_catcher:
  "(current_catcher s = [] \<longrightarrow>
       throw_exception e s = (Inl Null_deref, cleaned s)
     \<and> throw_reason RETURN_QUIT s = (Inl Null_deref, cleaned s)
     \<and> throw_reason RETURN_ERROR s = (Inl Null_deref, cleaned s)
     \<and> throw_verror k m s = (Inl Null_deref, cleaned (s\<lparr>last_message := Some m\<rparr>))
     \<and> throw_vfatal m s = (Inl Null_deref, cleaned (s\<lparr>last_message := Some m\<rparr>))
     \<and> throw_error k m s = (Inl Null_deref, cleaned (s\<lparr>last_message := Some m\<rparr>)))
   \<and> (r \<noteq> RETURN_QUIT \<and> r \<noteq> RETURN_ERROR \<longrightarrow>
       throw_reason r s = (Inl (Internal_error 256 ''bad switch''), s))"
  by (simp add: throw_exception_Nil throw_reason_def throw_verror_def throw_vfatal_def
      throw_error_def throw_it_def RETURN_QUIT_def RETURN_ERROR_def Let_def)

theorem throw_without_catcher_witness:
  "current_catcher bare_state = []
   \<and> fst (throw_exception \<lparr>reason = RETURN_ERROR, error = GENERIC_ERROR, message = Some ''bad value''\<rparr>
        bare_state) = Inl Null_deref
   \<and> quit_flag (snd (throw_reason RETURN_QUIT bare_state)) = 0
   \<and> trace (snd (throw_reason RETURN_QUIT bare_state)) =
       [Store_quit_flag 0, Store_immediate_quit 0, Call_bpstat_clear_actions,
        Call_disable_current_display, Call_do_cleanups [5], Call_do_exec_cleanups,
        Call_do_exec_error_cleanups]
   \<and> (0 :: int) \<noteq> RETURN_QUIT \<and> (0 :: int) \<noteq> RETURN_ERROR
   \<and> throw_reason 0 bare_state = (Inl (Internal_error 256 ''bad switch''), bare_state)
   \<and> length (current_catcher inside_catcher) = 1
   \<and> throw_reason 0 inside_catcher = (Inl (Internal_error 256 ''bad switch''), inside_catcher)"
proof -
  have empty: "current_catcher bare_state = []"
    and one: "length (current_catcher inside_catcher) = 1"
    by (simp_all add: bare_state_def inside_catcher_def eval_defs)
  have other: "(0 :: int) \<noteq> RETURN_QUIT \<and> (0 :: int) \<noteq> RETURN_ERROR"
    by (simp add: RETURN_QUIT_def RETURN_ERROR_def)
  note bare = throw_without_catcher [where s = bare_state and r = 0
      and e = "\<lparr>reason = RETURN_ERROR, error = GENERIC_ERROR, message = Some ''bad value''\<rparr>"]
  note inside = throw_without_catcher [where s = inside_catcher and r = 0,
      THEN conjunct2, rule_format, OF other]
  from bare empty other have "fst (throw_exception \<lparr>reason = RETURN_ERROR, error = GENERIC_ERROR, message = Some ''bad value''\<rparr>
        bare_state) = Inl Null_deref"
    and "throw_reason RETURN_QUIT bare_state = (Inl Null_deref, cleaned bare_state)"
    and "throw_reason 0 bare_state = (Inl (Internal_error 256 ''bad switch''), bare_state)"
    by simp_all
  moreover have "quit_flag (cleaned bare_state) = 0"
    and "trace (cleaned bare_state) =
       [Store_quit_flag 0, Store_immediate_quit 0, Call_bpstat_clear_actions,
        Call_disable_current_display, Call_do_cleanups [5], Call_do_exec_cleanups,
        Call_do_exec_error_cleanups]"
    by (simp_all add: cleaned_def bare_state_def)
  ultimately show ?thesis
    using empty one other inside by simp
qed

theorem throw_without_catcher_counterexample:
  "fst (throw_exception \<lparr>reason = RETURN_ERROR, error = GENERIC_ERROR, message = Some ''bad value''\<rparr>
        bare_state) = Inl Null_deref
   \<and> (\<forall>line text. fst (throw_exception
          \<lparr>reason = RETURN_ERROR, error = GENERIC_ERROR, message = Some ''bad value''\<rparr>
          bare_state) \<noteq> Inl (Internal_error line text))"
  by (simp add: throw_exception_Nil bare_state_def)

subsection \<open>\<^verbatim>\<open>catch_exceptions\<close>\<close>

text \<open>
  C10. \<^verbatim>\<open>catch_exceptions\<close> is \<^verbatim>\<open>catch_exceptions_with_msg\<close> with a null message slot:
  the same result and the same final state, for every output sink, operation,
  argument, mask and state.
\<close>

theorem catch_exceptions_is_with_msg_null:
  "catch_exceptions uiout' func func_args mask' s =
     catch_exceptions_with_msg uiout' func func_args None mask' s"
  by (simp add: catch_exceptions_def)

subsection \<open>The catcher stack after a Catch primitive\<close>

text \<open>
  C4. A protected operation is well nested when it ends, and either returns with the
  catchers as it found them or throws to the top catcher it found. For such
  operations, each Catch primitive called in \<open>s\<close> ends, and the catcher stack is then
  the one of \<open>s\<close>: when the primitive returns (the operation completed, or its
  exception was claimed) the catchers are exactly those of \<open>s\<close>; when it relays an
  exception that its mask does not contain, the jump goes to the top catcher of \<open>s\<close>,
  which becomes aborting, and the catchers are otherwise those of \<open>s\<close>. The catcher
  that the primitive pushed is popped once on each path.
\<close>

theorem catch_primitives_restore_stack:
  assumes "well_nested (func1 uiout1 args1)" and "well_nested (func2 uiout2 args2)"
    and "well_nested (func3 args3)" and "well_nested (command arg from_tty)"
  shows "stack_restored s (catch_exception uiout1 func1 args1 mask1 s)
    \<and> stack_restored s (catch_exceptions_with_msg uiout2 func2 args2 gdberrmsg mask2 s)
    \<and> stack_restored s (catch_exceptions uiout2 func2 args2 mask2 s)
    \<and> stack_restored s (catch_errors func3 args3 errstring mask3 s)
    \<and> stack_restored s (catch_command_errors command arg from_tty mask4 s)"
  using assms
  by (simp add: restores_stack_restored catch_exception_restores
      catch_exceptions_with_msg_restores catch_exceptions_def catch_errors_restores
      catch_command_errors_restores)

theorem catch_primitives_restore_stack_witness:
  "well_nested (throwing (throw_exception bad_value) ())
   \<and> well_nested (returning (7 :: int))
   \<and> well_nested (throwing (throw_reason RETURN_QUIT) (0 :: int))
   \<and> well_nested (returning ())
   \<and> stack_restored inside_catcher
        (catch_exception 3 (\<lambda>_ _. throwing (throw_exception bad_value) ()) () RETURN_MASK_ALL
           inside_catcher)
   \<and> stack_restored inside_catcher
        (catch_exceptions_with_msg 3 (\<lambda>_ _. returning 7) () None RETURN_MASK_ALL inside_catcher)
   \<and> stack_restored inside_catcher
        (catch_errors (\<lambda>_. throwing (throw_reason RETURN_QUIT) 0) () None RETURN_MASK_ERROR
           inside_catcher)
   \<and> stack_restored inside_catcher
        (catch_command_errors (\<lambda>_ _. returning ()) None 0 RETURN_MASK_ALL inside_catcher)
   \<and> current_catcher inside_catcher =
        [\<lparr>state = CATCHER_RUNNING, buf = 1, exception = 1, mask_c = 6, saved_uiout = 0,
          saved_cleanup_chain = [5]\<rparr>]
   \<and> fst (the (catch_exception 3 (\<lambda>_ _. throwing (throw_exception bad_value) ()) ()
               RETURN_MASK_ALL inside_catcher)) = Inr bad_value
   \<and> current_catcher (snd (the (catch_exception 3
          (\<lambda>_ _. throwing (throw_exception bad_value) ()) () RETURN_MASK_ALL inside_catcher))) =
        current_catcher inside_catcher
   \<and> fst (the (catch_errors (\<lambda>_. throwing (throw_reason RETURN_QUIT) 0) () None
               RETURN_MASK_ERROR inside_catcher)) = Inl (Longjmp 1 (- 2))
   \<and> current_catcher (snd (the (catch_errors (\<lambda>_. throwing (throw_reason RETURN_QUIT) 0) () None
               RETURN_MASK_ERROR inside_catcher))) =
        [\<lparr>state = CATCHER_ABORTING, buf = 1, exception = 1, mask_c = 6, saved_uiout = 0,
          saved_cleanup_chain = [5]\<rparr>]"
proof -
  note wn = well_nested_throw_exception [of bad_value "()"] well_nested_returning [of "7 :: int"]
    well_nested_throw_reason [of RETURN_QUIT "0 :: int"] well_nested_returning [of "()"]
  note restored = catch_primitives_restore_stack [
      where ?func1.0 = "\<lambda>_ _. throwing (throw_exception bad_value) ()" and ?uiout1.0 = 3
        and ?args1.0 = "()" and ?mask1.0 = RETURN_MASK_ALL
        and ?func2.0 = "\<lambda>_ _. returning 7" and ?uiout2.0 = 3 and ?args2.0 = "()"
        and gdberrmsg = None and ?mask2.0 = RETURN_MASK_ALL
        and ?func3.0 = "\<lambda>_. throwing (throw_reason RETURN_QUIT) 0" and ?args3.0 = "()"
        and errstring = None and ?mask3.0 = RETURN_MASK_ERROR
        and command = "\<lambda>_ _. returning ()" and arg = None and from_tty = 0
        and ?mask4.0 = RETURN_MASK_ALL and s = inside_catcher, OF wn]
  have evaluated: "current_catcher inside_catcher =
        [\<lparr>state = CATCHER_RUNNING, buf = 1, exception = 1, mask_c = 6, saved_uiout = 0,
          saved_cleanup_chain = [5]\<rparr>]"
    "fst (the (catch_exception 3 (\<lambda>_ _. throwing (throw_exception bad_value) ()) ()
               RETURN_MASK_ALL inside_catcher)) = Inr bad_value"
    "current_catcher (snd (the (catch_exception 3
          (\<lambda>_ _. throwing (throw_exception bad_value) ()) () RETURN_MASK_ALL inside_catcher))) =
        current_catcher inside_catcher"
    "fst (the (catch_errors (\<lambda>_. throwing (throw_reason RETURN_QUIT) 0) () None
               RETURN_MASK_ERROR inside_catcher)) = Inl (Longjmp 1 (- 2))"
    "current_catcher (snd (the (catch_errors (\<lambda>_. throwing (throw_reason RETURN_QUIT) 0) () None
               RETURN_MASK_ERROR inside_catcher))) =
        [\<lparr>state = CATCHER_ABORTING, buf = 1, exception = 1, mask_c = 6, saved_uiout = 0,
          saved_cleanup_chain = [5]\<rparr>]"
    by (simp_all add: inside_catcher_def bad_value_def eval_defs)
  from wn restored evaluated show ?thesis
    by blast
qed

subsection \<open>The output sink and the cleanup chain\<close>

text \<open>
  C9. \<^verbatim>\<open>catcher_init\<close> saves the current output sink and cleanup chain in the catcher
  it pushes, and \<^verbatim>\<open>catcher_pop\<close> puts back what the popped catcher holds, so a push
  followed by a pop leaves both as they were. For well nested operations, each Catch
  primitive called in \<open>s\<close> ends with both restored: when it returns, the sink and the
  chain are those of \<open>s\<close>, also when the operation threw; when it relays, the catcher
  is popped first, so that \<^verbatim>\<open>throw_exception\<close> is called with the sink and the chain of
  \<open>s\<close>, and the sink is still that of \<open>s\<close> after the jump.
\<close>

theorem catch_primitives_restore_sink_and_cleanups:
  assumes "well_nested (func1 uiout1 args1)" and "well_nested (func2 uiout2 args2)"
    and "well_nested (func3 args3)" and "well_nested (command arg from_tty)"
  shows "(\<exists>c. current_catcher (snd (catcher_init func_uiout a m s)) = c # current_catcher s
           \<and> saved_uiout c = uiout s \<and> saved_cleanup_chain c = cleanup_chain s)
    \<and> uiout (snd (catcher_pop (on_top s c prev st))) = saved_uiout c
    \<and> cleanup_chain (snd (catcher_pop (on_top s c prev st))) = saved_cleanup_chain c
    \<and> uiout (snd (catcher_pop (snd (catcher_init func_uiout a m s)))) = uiout s
    \<and> cleanup_chain (snd (catcher_pop (snd (catcher_init func_uiout a m s)))) = cleanup_chain s
    \<and> sink_restored s (catch_exception uiout1 func1 args1 mask1 s)
    \<and> sink_restored s (catch_exceptions_with_msg uiout2 func2 args2 gdberrmsg mask2 s)
    \<and> sink_restored s (catch_exceptions uiout2 func2 args2 mask2 s)
    \<and> sink_restored s (catch_errors func3 args3 errstring mask3 s)
    \<and> sink_restored s (catch_command_errors command arg from_tty mask4 s)"
proof -
  have push_pop: "(\<exists>c. current_catcher (snd (catcher_init func_uiout a m s)) = c # current_catcher s
           \<and> saved_uiout c = uiout s \<and> saved_cleanup_chain c = cleanup_chain s)
    \<and> uiout (snd (catcher_pop (on_top s c prev st))) = saved_uiout c
    \<and> cleanup_chain (snd (catcher_pop (on_top s c prev st))) = saved_cleanup_chain c
    \<and> uiout (snd (catcher_pop (snd (catcher_init func_uiout a m s)))) = uiout s
    \<and> cleanup_chain (snd (catcher_pop (snd (catcher_init func_uiout a m s)))) = cleanup_chain s"
    by (simp add: catcher_init_eq catcher_pop_Cons)
  from assms have "sink_restored s (catch_exception uiout1 func1 args1 mask1 s)
    \<and> sink_restored s (catch_exceptions_with_msg uiout2 func2 args2 gdberrmsg mask2 s)
    \<and> sink_restored s (catch_exceptions uiout2 func2 args2 mask2 s)
    \<and> sink_restored s (catch_errors func3 args3 errstring mask3 s)
    \<and> sink_restored s (catch_command_errors command arg from_tty mask4 s)"
    by (simp add: restores_sink_restored catch_exception_restores
      catch_exceptions_with_msg_restores catch_exceptions_def catch_errors_restores
      catch_command_errors_restores)
  with push_pop show ?thesis
    by blast
qed

theorem catch_primitives_restore_sink_and_cleanups_witness:
  "well_nested (throwing (throw_exception bad_value) ())
   \<and> well_nested (returning (7 :: int))
   \<and> well_nested (throwing (throw_reason RETURN_QUIT) (0 :: int))
   \<and> well_nested (returning ())
   \<and> sink_restored inside_catcher
        (catch_exception 3 (\<lambda>_ _. throwing (throw_exception bad_value) ()) () RETURN_MASK_ALL
           inside_catcher)
   \<and> sink_restored inside_catcher
        (catch_exceptions_with_msg 3 (\<lambda>_ _. returning 7) () None RETURN_MASK_ALL inside_catcher)
   \<and> sink_restored inside_catcher
        (catch_errors (\<lambda>_. throwing (throw_reason RETURN_QUIT) 0) () None RETURN_MASK_ERROR
           inside_catcher)
   \<and> sink_restored inside_catcher
        (catch_command_errors (\<lambda>_ _. returning ()) None 0 RETURN_MASK_ALL inside_catcher)
   \<and> uiout (snd (catcher_pop (snd (catcher_init 3 2 RETURN_MASK_ALL inside_catcher)))) = 0
   \<and> uiout (snd (the (catch_exception 3 (\<lambda>_ _. throwing (throw_exception bad_value) ()) ()
               RETURN_MASK_ALL inside_catcher))) = uiout inside_catcher
   \<and> cleanup_chain (snd (the (catch_exception 3
          (\<lambda>_ _. throwing (throw_exception bad_value) ()) () RETURN_MASK_ALL inside_catcher))) =
        cleanup_chain inside_catcher
   \<and> uiout (snd (the (catch_errors (\<lambda>_. throwing (throw_reason RETURN_QUIT) 0) () None
               RETURN_MASK_ERROR inside_catcher))) = uiout inside_catcher"
proof -
  note wn = well_nested_throw_exception [of bad_value "()"] well_nested_returning [of "7 :: int"]
    well_nested_throw_reason [of RETURN_QUIT "0 :: int"] well_nested_returning [of "()"]
  note restored = catch_primitives_restore_sink_and_cleanups [
      where ?func1.0 = "\<lambda>_ _. throwing (throw_exception bad_value) ()" and ?uiout1.0 = 3
        and ?args1.0 = "()" and ?mask1.0 = RETURN_MASK_ALL
        and ?func2.0 = "\<lambda>_ _. returning 7" and ?uiout2.0 = 3 and ?args2.0 = "()"
        and gdberrmsg = None and ?mask2.0 = RETURN_MASK_ALL
        and ?func3.0 = "\<lambda>_. throwing (throw_reason RETURN_QUIT) 0" and ?args3.0 = "()"
        and errstring = None and ?mask3.0 = RETURN_MASK_ERROR
        and command = "\<lambda>_ _. returning ()" and arg = None and from_tty = 0
        and ?mask4.0 = RETURN_MASK_ALL and s = inside_catcher
        and func_uiout = 3 and a = 2 and m = RETURN_MASK_ALL, OF wn]
  have evaluated: "uiout inside_catcher = 0"
   "uiout (snd (the (catch_exception 3 (\<lambda>_ _. throwing (throw_exception bad_value) ()) ()
               RETURN_MASK_ALL inside_catcher))) = uiout inside_catcher"
   "cleanup_chain (snd (the (catch_exception 3
          (\<lambda>_ _. throwing (throw_exception bad_value) ()) () RETURN_MASK_ALL inside_catcher))) =
        cleanup_chain inside_catcher"
   "uiout (snd (the (catch_errors (\<lambda>_. throwing (throw_reason RETURN_QUIT) 0) () None
               RETURN_MASK_ERROR inside_catcher))) = uiout inside_catcher"
    by (simp_all add: inside_catcher_def bad_value_def eval_defs)
  from restored have "uiout (snd (catcher_pop (snd (catcher_init 3 2 RETURN_MASK_ALL inside_catcher)))) = 0"
    using evaluated(1) by simp
  with wn restored evaluated show ?thesis
    by blast
qed

subsection \<open>Which catcher gets a thrown exception\<close>

text \<open>
  C2. \<^verbatim>\<open>throw_exception\<close> jumps to the buffer of the top catcher, with the exception in
  the status buffer of that catcher. Let the reason of the exception be a quit or an
  error. Around the throw, take any sequence \<open>cs\<close> of nested invocations of the Catch
  primitives (\<^verbatim>\<open>catch_exception\<close>, \<^verbatim>\<open>catch_exceptions_with_msg\<close>, \<^verbatim>\<open>catch_exceptions\<close>,
  \<^verbatim>\<open>catch_errors\<close>, \<^verbatim>\<open>catch_command_errors\<close>, in any mix) whose masks do not contain
  the reason: each of them pops its catcher and throws the same exception again, so
  that the whole nest does what \<^verbatim>\<open>throw_exception\<close> of the same exception does in a
  state with the catchers of the caller. An invocation \<open>c\<close> of any of the primitives
  around them whose mask contains the reason returns, with the catchers of its caller
  and their status buffers as they were; when it is \<^verbatim>\<open>catch_exception\<close>, what it
  returns is that very exception: the innermost catcher that accepts the reason
  claims it. Any nest \<open>outer\<close> of invocations further out, whatever their masks, sees
  its operation return, and \<^verbatim>\<open>catch_exception\<close> around it returns the no-exception
  value and leaves the catchers and their status buffers as they were.
\<close>

theorem throw_reaches_innermost_accepting_catch:
  assumes "reason e = RETURN_QUIT \<or> reason e = RETURN_ERROR"
    and "\<forall>c' \<in> set cs. and (mask_of c') (RETURN_MASK (reason e)) = 0"
    and "and (mask_of c) (RETURN_MASK (reason e)) \<noteq> 0"
    and "and m (RETURN_MASK (reason e)) \<noteq> 0"
  shows "throw_exception e (on_top s c0 prev CATCHER_RUNNING) =
       (Inl (Longjmp (buf c0) (reason e)),
        (cleaned s)\<lparr>current_catcher := c0\<lparr>state := CATCHER_ABORTING\<rparr> # prev,
          exception_mem := (exception_mem s)(exception c0 := e)\<rparr>)
    \<and> (\<exists>x s' sp. nested_catch cs (throwing (throw_exception e) ()) s = Some (Inl x, s')
          \<and> throw_exception e sp = (Inl x, s')
          \<and> current_catcher sp = current_catcher s
          \<and> (\<forall>c \<in> set (current_catcher s).
                exception_mem sp (exception c) = exception_mem s (exception c)))
    \<and> (\<exists>s'. nested_catch (c # cs) (throwing (throw_exception e) ()) s = Some (Inr (), s')
          \<and> current_catcher s' = current_catcher s
          \<and> (\<forall>c \<in> set (current_catcher s).
                exception_mem s' (exception c) = exception_mem s (exception c)))
    \<and> (\<exists>s'. catch_exception u (\<lambda>_ _. nested_catch cs (throwing (throw_exception e) ())) () m s
            = Some (Inr e, s')
          \<and> current_catcher s' = current_catcher s
          \<and> (\<forall>c \<in> set (current_catcher s).
                exception_mem s' (exception c) = exception_mem s (exception c)))
    \<and> (\<exists>s'. nested_catch (outer @ c # cs) (throwing (throw_exception e) ()) s = Some (Inr (), s')
          \<and> current_catcher s' = current_catcher s
          \<and> (\<forall>c \<in> set (current_catcher s).
                exception_mem s' (exception c) = exception_mem s (exception c)))
    \<and> (\<exists>s'. catch_exception u0
              (\<lambda>_ _. nested_catch (outer @ c # cs) (throwing (throw_exception e) ())) () m0 s
            = Some (Inr exception_none, s')
          \<and> current_catcher s' = current_catcher s
          \<and> (\<forall>c \<in> set (current_catcher s).
                exception_mem s' (exception c) = exception_mem s (exception c)))"
proof -
  let ?op = "throwing (throw_exception e) () :: gdb_state \<Rightarrow> unit result option"
  have first: "throw_exception e (on_top s c0 prev CATCHER_RUNNING) =
       (Inl (Longjmp (buf c0) (reason e)),
        (cleaned s)\<lparr>current_catcher := c0\<lparr>state := CATCHER_ABORTING\<rparr> # prev,
          exception_mem := (exception_mem s)(exception c0 := e)\<rparr>)"
    by (subst throw_exception_running [where c = "c0\<lparr>state := CATCHER_RUNNING\<rparr>" and prev = prev])
      (simp_all add: cleaned_def)
  have inner: "throws e (nested_catch cs ?op)"
    using throws_throw_exception assms(2) by (rule nested_throws)
  then have relayed: "\<exists>x s' sp. nested_catch cs ?op s = Some (Inl x, s')
          \<and> throw_exception e sp = (Inl x, s')
          \<and> current_catcher sp = current_catcher s
          \<and> (\<forall>c \<in> set (current_catcher s).
                exception_mem sp (exception c) = exception_mem s (exception c))"
    unfolding throws_def by blast
  have claimer: "completes (nested_catch (c # cs) ?op)"
    using invoke_claims [OF inner assms(3) assms(1)] by simp
  have returns: "\<exists>s'. f s = Some (Inr (), s')
          \<and> current_catcher s' = current_catcher s
          \<and> (\<forall>c \<in> set (current_catcher s).
                exception_mem s' (exception c) = exception_mem s (exception c))"
    if "completes f" for f :: "gdb_state \<Rightarrow> unit result option"
    using that unfolding completes_def by simp
  have claimed: "\<exists>s'. catch_exception u (\<lambda>_ _. nested_catch cs ?op) () m s = Some (Inr e, s')
          \<and> current_catcher s' = current_catcher s
          \<and> (\<forall>c \<in> set (current_catcher s).
                exception_mem s' (exception c) = exception_mem s (exception c))"
    using inner assms(4)
    by (rule catch_exception_claims [where func = "\<lambda>_ _. nested_catch cs ?op"])
  have "completes (nested_catch outer (nested_catch (c # cs) ?op))"
    using claimer by (rule nested_completes)
  then have whole: "completes (nested_catch (outer @ c # cs) ?op)"
    by (simp add: nested_append)
  then have enclosing: "\<exists>s'. catch_exception u0
              (\<lambda>_ _. nested_catch (outer @ c # cs) ?op) () m0 s
            = Some (Inr exception_none, s')
          \<and> current_catcher s' = current_catcher s
          \<and> (\<forall>c \<in> set (current_catcher s).
                exception_mem s' (exception c) = exception_mem s (exception c))"
    by (rule catch_exception_completes
        [where func = "\<lambda>_ _. nested_catch (outer @ c # cs) ?op"])
  from first relayed returns [OF claimer] claimed returns [OF whole] enclosing show ?thesis
    by blast
qed

theorem throw_reaches_innermost_accepting_catch_witness:
  "reason quit_exception = RETURN_QUIT
   \<and> and (mask_of (Catch_errors None RETURN_MASK_ERROR))
        (RETURN_MASK (reason quit_exception)) = 0
   \<and> and (mask_of (Catch_exceptions_with_msg 2 None RETURN_MASK_ERROR))
        (RETURN_MASK (reason quit_exception)) = 0
   \<and> and (mask_of (Catch_command_errors None 0 RETURN_MASK_QUIT))
        (RETURN_MASK (reason quit_exception)) \<noteq> 0
   \<and> fst (the (nested_catch
          [Catch_errors None RETURN_MASK_ERROR, Catch_exceptions_with_msg 2 None RETURN_MASK_ERROR]
          (throwing (throw_exception quit_exception) ()) inside_catcher)) = Inl (Longjmp 1 (- 2))
   \<and> map_option fst (nested_catch
          [Catch_command_errors None 0 RETURN_MASK_QUIT,
           Catch_errors None RETURN_MASK_ERROR, Catch_exceptions_with_msg 2 None RETURN_MASK_ERROR]
          (throwing (throw_exception quit_exception) ()) inside_catcher) = Some (Inr ())
   \<and> map_option fst (catch_exception 3
        (\<lambda>_ _. nested_catch
           [Catch_errors None RETURN_MASK_ERROR, Catch_exceptions_with_msg 2 None RETURN_MASK_ERROR]
           (throwing (throw_exception quit_exception) ())) () RETURN_MASK_QUIT inside_catcher)
      = Some (Inr quit_exception)
   \<and> map_option (\<lambda>res. current_catcher (snd res)) (catch_exception 3
        (\<lambda>_ _. nested_catch
           [Catch_errors None RETURN_MASK_ERROR, Catch_exceptions_with_msg 2 None RETURN_MASK_ERROR]
           (throwing (throw_exception quit_exception) ())) () RETURN_MASK_QUIT inside_catcher)
      = Some (current_catcher inside_catcher)
   \<and> map_option fst (catch_exception 4
        (\<lambda>_ _. nested_catch ([Catch_exception 5 RETURN_MASK_ALL]
              @ Catch_command_errors None 0 RETURN_MASK_QUIT
              # [Catch_errors None RETURN_MASK_ERROR,
                 Catch_exceptions_with_msg 2 None RETURN_MASK_ERROR])
           (throwing (throw_exception quit_exception) ())) () RETURN_MASK_ALL inside_catcher)
      = Some (Inr exception_none)"
proof -
  let ?cs = "[Catch_errors None RETURN_MASK_ERROR,
    Catch_exceptions_with_msg 2 None RETURN_MASK_ERROR]"
  have valid: "reason quit_exception = RETURN_QUIT \<or> reason quit_exception = RETURN_ERROR"
    and quit: "reason quit_exception = RETURN_QUIT"
    by (simp_all add: quit_exception_def)
  have lacks: "\<forall>c' \<in> set ?cs. and (mask_of c') (RETURN_MASK (reason quit_exception)) = 0"
    and lack1: "and (mask_of (Catch_errors None RETURN_MASK_ERROR))
        (RETURN_MASK (reason quit_exception)) = 0"
    and lack2: "and (mask_of (Catch_exceptions_with_msg 2 None RETURN_MASK_ERROR))
        (RETURN_MASK (reason quit_exception)) = 0"
    and has: "and (mask_of (Catch_command_errors None 0 RETURN_MASK_QUIT))
        (RETURN_MASK (reason quit_exception)) \<noteq> 0"
    and has': "and RETURN_MASK_QUIT (RETURN_MASK (reason quit_exception)) \<noteq> 0"
    by (simp_all add: quit_exception_def RETURN_MASK_def RETURN_MASK_ERROR_def
        RETURN_MASK_QUIT_def RETURN_QUIT_def RETURN_ERROR_def)
  note inst = throw_reaches_innermost_accepting_catch [OF valid lacks has has',
      where s = inside_catcher and u = 3 and ?u0.0 = 4 and ?m0.0 = RETURN_MASK_ALL
        and outer = "[Catch_exception 5 RETURN_MASK_ALL]"]
  from inst obtain s0 where claimer: "nested_catch (Catch_command_errors None 0 RETURN_MASK_QUIT # ?cs)
      (throwing (throw_exception quit_exception) ()) inside_catcher = Some (Inr (), s0)"
    by blast
  from inst obtain s1 where claimed: "catch_exception 3
        (\<lambda>_ _. nested_catch ?cs (throwing (throw_exception quit_exception) ())) ()
        RETURN_MASK_QUIT inside_catcher = Some (Inr quit_exception, s1)"
    and stack: "current_catcher s1 = current_catcher inside_catcher"
    by blast
  from inst obtain s2 where enclosing: "catch_exception 4
        (\<lambda>_ _. nested_catch ([Catch_exception 5 RETURN_MASK_ALL]
              @ Catch_command_errors None 0 RETURN_MASK_QUIT # ?cs)
           (throwing (throw_exception quit_exception) ())) () RETURN_MASK_ALL inside_catcher
       = Some (Inr exception_none, s2)"
    by blast
  have relayed: "fst (the (nested_catch ?cs (throwing (throw_exception quit_exception) ())
      inside_catcher)) = Inl (Longjmp 1 (- 2))"
    by (simp add: inside_catcher_def quit_exception_def eval_defs eval_nested)
  from quit lack1 lack2 has claimer claimed stack enclosing relayed show ?thesis
    by simp
qed

subsection \<open>The value of \<^verbatim>\<open>catch_errors\<close>\<close>

text \<open>
  C6, as the code has it. For a well nested operation, called by \<^verbatim>\<open>catch_errors\<close> in
  the state that \<open>protected_entry\<close> gives. When the operation returns \<open>v\<close>,
  \<^verbatim>\<open>catch_errors\<close> returns \<open>v\<close>, true for a non-zero value and false for zero. When the
  operation ends by an exception, \<^verbatim>\<open>catch_errors\<close> returns nothing but 0, and whether it
  returns depends on its mask. When the mask contains the reason (a quit or an
  error), it returns 0, whatever the operation had computed. When the mask does not
  contain the reason, it does not return: it pops its catcher and does what
  \<^verbatim>\<open>throw_exception\<close> of the same exception does from there, which is to leave for
  the enclosing catcher. When the operation aborts the process, so does
  \<^verbatim>\<open>catch_errors\<close>.
\<close>

theorem catch_errors_result:
  assumes "well_nested (func func_args)"
  shows "(\<forall>v s2. func func_args (protected_entry (uiout s) mask' s) = Some (Inr v, s2) \<longrightarrow>
            (\<exists>s'. catch_errors func func_args errstring mask' s = Some (Inr v, s')))
    \<and> (\<forall>x s2. func func_args (protected_entry (uiout s) mask' s) = Some (Inl x, s2) \<longrightarrow>
            (\<forall>v s'. catch_errors func func_args errstring mask' s = Some (Inr v, s') \<longrightarrow> v = 0))
    \<and> (\<forall>b r s2. func func_args (protected_entry (uiout s) mask' s) = Some (Inl (Longjmp b r), s2)
            \<and> and mask' (RETURN_MASK (reason (exception_mem s2 (local_exception s)))) \<noteq> 0
            \<and> (reason (exception_mem s2 (local_exception s)) = RETURN_QUIT
                \<or> reason (exception_mem s2 (local_exception s)) = RETURN_ERROR) \<longrightarrow>
            (\<exists>s'. catch_errors func func_args errstring mask' s = Some (Inr 0, s')))
    \<and> (\<forall>b r s2. func func_args (protected_entry (uiout s) mask' s) = Some (Inl (Longjmp b r), s2)
            \<and> and mask' (RETURN_MASK (reason (exception_mem s2 (local_exception s)))) = 0 \<longrightarrow>
            (\<exists>x s'. catch_errors func func_args errstring mask' s = Some (Inl x, s')
                \<and> throw_exception (exception_mem s2 (local_exception s)) (snd (catcher_pop s2))
                    = (Inl x, s')))
    \<and> (\<forall>x s2. func func_args (protected_entry (uiout s) mask' s) = Some (Inl x, s2)
            \<and> (x = Null_deref \<or> (\<exists>l t. x = Internal_error l t)) \<longrightarrow>
            catch_errors func func_args errstring mask' s = Some (Inl x, s2))"
proof (intro conjI allI impI)
  fix v s2
  assume "func func_args (protected_entry (uiout s) mask' s) = Some (Inr v, s2)"
  from catch_errors_returned [where func = func and args = func_args, OF assms this]
  show "\<exists>s'. catch_errors func func_args errstring mask' s = Some (Inr v, s')"
    by blast
next
  fix x s2 v s'
  assume f: "func func_args (protected_entry (uiout s) mask' s) = Some (Inl x, s2)"
    and ret: "catch_errors func func_args errstring mask' s = Some (Inr v, s')"
  show "v = 0"
  proof (cases x)
    case (Longjmp b r)
    from ret show ?thesis
      unfolding catch_errors_thrown [where func = func and args = func_args, OF assms f [unfolded Longjmp]]
      using throw_exception_Inl
        [of "exception_mem s2 (local_exception s)" "snd (catcher_pop s2)"]
      by (auto split: if_splits prod.splits sum.splits)
  next
    case (Internal_error l t)
    with catch_errors_aborted [where func = func and args = func_args, OF assms f] ret show ?thesis
      by simp
  next
    case Null_deref
    with catch_errors_aborted [where func = func and args = func_args, OF assms f] ret show ?thesis
      by simp
  qed
next
  fix b r and s2 :: gdb_state
  let ?e = "exception_mem s2 (local_exception s)"
  assume a: "func func_args (protected_entry (uiout s) mask' s) = Some (Inl (Longjmp b r), s2)
            \<and> and mask' (RETURN_MASK (reason ?e)) \<noteq> 0
            \<and> (reason ?e = RETURN_QUIT \<or> reason ?e = RETURN_ERROR)"
  then have f: "func func_args (protected_entry (uiout s) mask' s) = Some (Inl (Longjmp b r), s2)"
    and yes: "and mask' (RETURN_MASK (reason ?e)) \<noteq> 0"
    and printable: "reason ?e = RETURN_QUIT \<or> reason ?e = RETURN_ERROR"
    by simp_all
  obtain p s3 where printed:
    "print_any_exception gdb_stderr errstring ?e (snd (catcher_pop s2)) = (p, s3)"
    by (cases "print_any_exception gdb_stderr errstring ?e (snd (catcher_pop s2))")
  with print_any_exception_printable [OF printable, of gdb_stderr errstring "snd (catcher_pop s2)"]
  have "p = Inr ()"
    by simp
  with printed yes show "\<exists>s'. catch_errors func func_args errstring mask' s = Some (Inr 0, s')"
    unfolding catch_errors_thrown [where func = func and args = func_args, OF assms f] by simp
next
  fix b r and s2 :: gdb_state
  let ?e = "exception_mem s2 (local_exception s)"
  assume a: "func func_args (protected_entry (uiout s) mask' s) = Some (Inl (Longjmp b r), s2)
            \<and> and mask' (RETURN_MASK (reason ?e)) = 0"
  then have f: "func func_args (protected_entry (uiout s) mask' s) = Some (Inl (Longjmp b r), s2)"
    and no: "and mask' (RETURN_MASK (reason ?e)) = 0"
    by simp_all
  obtain y s' where thrown: "throw_exception ?e (snd (catcher_pop s2)) = (Inl y, s')"
    using throw_exception_Inl by blast
  with no have "catch_errors func func_args errstring mask' s = Some (Inl y, s')"
    unfolding catch_errors_thrown [where func = func and args = func_args, OF assms f] by simp
  with thrown show "\<exists>x s'. catch_errors func func_args errstring mask' s = Some (Inl x, s')
      \<and> throw_exception ?e (snd (catcher_pop s2)) = (Inl x, s')"
    by blast
next
  fix x s2
  assume "func func_args (protected_entry (uiout s) mask' s) = Some (Inl x, s2)
            \<and> (x = Null_deref \<or> (\<exists>l t. x = Internal_error l t))"
  then show "catch_errors func func_args errstring mask' s = Some (Inl x, s2)"
    using catch_errors_aborted [where func = func and args = func_args, OF assms] by blast
qed

theorem catch_errors_result_counterexample:
  "map_option fst
     (catch_errors (\<lambda>_. throwing (throw_reason RETURN_QUIT) 1) () None RETURN_MASK_ERROR
        inside_catcher)
   = Some (Inl (Longjmp 1 (- 2)))
   \<and> (\<forall>v s'. catch_errors (\<lambda>_. throwing (throw_reason RETURN_QUIT) 1) () None RETURN_MASK_ERROR
        inside_catcher \<noteq> Some (Inr v, s'))"
proof -
  have "map_option fst
     (catch_errors (\<lambda>_. throwing (throw_reason RETURN_QUIT) 1) () None RETURN_MASK_ERROR
        inside_catcher)
   = Some (Inl (Longjmp 1 (- 2)))"
    by (simp add: inside_catcher_def eval_defs)
  then show ?thesis
    by auto
qed

theorem catch_errors_result_witness:
  "well_nested (returning (5 :: int))
   \<and> well_nested (throwing (throw_error GENERIC_ERROR ''bad value'') (1 :: int))
   \<and> well_nested (throwing (throw_reason RETURN_QUIT) (1 :: int))
   \<and> map_option fst (catch_errors (\<lambda>_. returning 5) () None RETURN_MASK_ALL bare_state)
       = Some (Inr 5)
   \<and> map_option fst (catch_errors (\<lambda>_. returning 0) () None RETURN_MASK_ALL bare_state)
       = Some (Inr 0)
   \<and> map_option fst
        (catch_errors (\<lambda>_. throwing (throw_error GENERIC_ERROR ''bad value'') 1) ()
           (Some ''Error: '') RETURN_MASK_ALL bare_state)
       = Some (Inr 0)
   \<and> and RETURN_MASK_ERROR (RETURN_MASK RETURN_QUIT) = 0
   \<and> (\<exists>x. map_option fst
        (catch_errors (\<lambda>_. throwing (throw_reason RETURN_QUIT) 1) () None RETURN_MASK_ERROR
           inside_catcher) = Some (Inl x))"
proof -
  let ?entry = "protected_entry (uiout bare_state) RETURN_MASK_ALL bare_state"
  let ?throw = "throwing (throw_error GENERIC_ERROR ''bad value'') (1 :: int)"
  let ?inner = "protected_entry (uiout inside_catcher) RETURN_MASK_ERROR inside_catcher"
  let ?quit = "throwing (throw_reason RETURN_QUIT) (1 :: int)"
  note wn = well_nested_returning [of "5 :: int"] well_nested_returning [of "0 :: int"]
    well_nested_throw_error [of GENERIC_ERROR "''bad value''" "1 :: int"]
    well_nested_throw_reason [of RETURN_QUIT "1 :: int"]
  have "returning (5 :: int) ?entry = Some (Inr 5, ?entry)"
    by (simp add: returning_def)
  with catch_errors_result [where func = "\<lambda>_. returning 5" and func_args = "()"
      and s = bare_state and mask' = RETURN_MASK_ALL and errstring = None, OF wn(1)]
  have five: "map_option fst (catch_errors (\<lambda>_. returning 5) () None RETURN_MASK_ALL bare_state)
       = Some (Inr 5)"
    by fastforce
  have "returning (0 :: int) ?entry = Some (Inr 0, ?entry)"
    by (simp add: returning_def)
  with catch_errors_result [where func = "\<lambda>_. returning 0" and func_args = "()"
      and s = bare_state and mask' = RETURN_MASK_ALL and errstring = None, OF wn(2)]
  have zero: "map_option fst (catch_errors (\<lambda>_. returning 0) () None RETURN_MASK_ALL bare_state)
       = Some (Inr 0)"
    by fastforce
  have thrown: "?throw ?entry = Some (Inl (Longjmp 1 (- 1)), snd (the (?throw ?entry)))"
    and accepted: "and RETURN_MASK_ALL (RETURN_MASK (reason (exception_mem
        (snd (the (?throw ?entry))) (local_exception bare_state)))) \<noteq> 0"
    and an_error: "reason (exception_mem (snd (the (?throw ?entry)))
        (local_exception bare_state)) = RETURN_ERROR"
    by (simp_all add: eval_defs)
  note third = catch_errors_result [where func = "\<lambda>_. ?throw" and func_args = "()"
      and s = bare_state and mask' = RETURN_MASK_ALL and errstring = "Some ''Error: ''",
      OF wn(3), THEN conjunct2, THEN conjunct2, THEN conjunct1, rule_format,
      OF conjI [OF thrown conjI [OF accepted disjI2 [OF an_error]]]]
  then have error: "map_option fst (catch_errors (\<lambda>_. ?throw) () (Some ''Error: '')
      RETURN_MASK_ALL bare_state) = Some (Inr 0)"
    by auto
  have quit: "?quit ?inner = Some (Inl (Longjmp 2 (- 2)), snd (the (?quit ?inner)))"
    and refused: "and RETURN_MASK_ERROR (RETURN_MASK (reason (exception_mem
        (snd (the (?quit ?inner))) (local_exception inside_catcher)))) = 0"
    and lacks: "and RETURN_MASK_ERROR (RETURN_MASK RETURN_QUIT) = 0"
    by (simp_all add: inside_catcher_def eval_defs)
  note fourth = catch_errors_result [where func = "\<lambda>_. ?quit" and func_args = "()"
      and s = inside_catcher and mask' = RETURN_MASK_ERROR and errstring = None,
      OF wn(4), THEN conjunct2, THEN conjunct2, THEN conjunct2, THEN conjunct1, rule_format,
      OF conjI [OF quit refused]]
  then have relayed: "\<exists>x. map_option fst (catch_errors (\<lambda>_. ?quit) () None RETURN_MASK_ERROR
      inside_catcher) = Some (Inl x)"
    by auto
  from wn(1,3,4) five zero error lacks relayed show ?thesis
    by blast
qed

subsection \<open>The value of \<^verbatim>\<open>catch_exceptions_with_msg\<close>\<close>

text \<open>
  C5. For a well nested operation, called in the state that \<open>protected_entry\<close> gives.
  When the operation returns \<open>v\<close>, which is never negative, the primitive returns \<open>v\<close>
  (a negative \<open>v\<close>, which the contract of the operation excludes, would fail the
  assertion on the stored value). When the operation throws an exception that the
  mask contains, a quit or an error, the primitive returns the reason, which is
  negative, and a message slot given by the caller then holds the message of the
  exception, or null when it has none. The slot holds a copy of its own: a later
  throw, which frees and replaces \<^verbatim>\<open>last_message\<close>, leaves the slot as it is. Both
  assertions hold on every call that returns: the value returned is either the value
  of the operation, not negative, or the reason of the exception thrown, not
  positive.
\<close>

theorem catch_exceptions_with_msg_result:
  assumes "well_nested (func uiout' func_args)"
  shows "(\<forall>v s2. func uiout' func_args (protected_entry uiout' mask' s) = Some (Inr v, s2) \<longrightarrow>
            (if 0 \<le> v
             then \<exists>s'. catch_exceptions_with_msg uiout' func func_args gdberrmsg mask' s
                    = Some (Inr v, s')
             else \<exists>s'. catch_exceptions_with_msg uiout' func func_args gdberrmsg mask' s
                    = Some (Inl (Internal_error 467 ''val >= 0''), s')))
    \<and> (\<forall>b r s2. func uiout' func_args (protected_entry uiout' mask' s)
              = Some (Inl (Longjmp b r), s2)
            \<and> and mask' (RETURN_MASK (reason (exception_mem s2 (local_exception s)))) \<noteq> 0
            \<and> (reason (exception_mem s2 (local_exception s)) = RETURN_QUIT
                \<or> reason (exception_mem s2 (local_exception s)) = RETURN_ERROR) \<longrightarrow>
            (\<exists>s'. catch_exceptions_with_msg uiout' func func_args gdberrmsg mask' s
                    = Some (Inr (reason (exception_mem s2 (local_exception s))), s')
                \<and> reason (exception_mem s2 (local_exception s)) < 0
                \<and> (case gdberrmsg of
                      None \<Rightarrow> gdberrmsg_mem s' = gdberrmsg_mem s2
                    | Some p \<Rightarrow>
                        gdberrmsg_mem s' = (gdberrmsg_mem s2)
                          (p := message (exception_mem s2 (local_exception s)))
                        \<and> (\<forall>r' k t. gdberrmsg_mem (snd (throw_it r' k t s')) p
                              = message (exception_mem s2 (local_exception s))))))
    \<and> (\<forall>v s'. catch_exceptions_with_msg uiout' func func_args gdberrmsg mask' s
              = Some (Inr v, s') \<longrightarrow>
            (\<exists>s2. func uiout' func_args (protected_entry uiout' mask' s) = Some (Inr v, s2)
                  \<and> 0 \<le> v)
            \<or> (\<exists>b r s2. func uiout' func_args (protected_entry uiout' mask' s)
                    = Some (Inl (Longjmp b r), s2)
                  \<and> v = reason (exception_mem s2 (local_exception s)) \<and> v \<le> 0))"
proof (intro conjI allI impI)
  fix v s2
  assume "func uiout' func_args (protected_entry uiout' mask' s) = Some (Inr v, s2)"
  from catch_exceptions_with_msg_returned
    [where func = func and u = uiout' and args = func_args, OF assms this]
  show "if 0 \<le> v
        then \<exists>s'. catch_exceptions_with_msg uiout' func func_args gdberrmsg mask' s
               = Some (Inr v, s')
        else \<exists>s'. catch_exceptions_with_msg uiout' func func_args gdberrmsg mask' s
               = Some (Inl (Internal_error 467 ''val >= 0''), s')"
    by simp
next
  fix b r and s2 :: gdb_state
  let ?e = "exception_mem s2 (local_exception s)"
  let ?sp = "snd (catcher_pop s2)"
  assume a: "func uiout' func_args (protected_entry uiout' mask' s) = Some (Inl (Longjmp b r), s2)
            \<and> and mask' (RETURN_MASK (reason ?e)) \<noteq> 0
            \<and> (reason ?e = RETURN_QUIT \<or> reason ?e = RETURN_ERROR)"
  then have f: "func uiout' func_args (protected_entry uiout' mask' s)
      = Some (Inl (Longjmp b r), s2)"
    and yes: "and mask' (RETURN_MASK (reason ?e)) \<noteq> 0"
    and printable: "reason ?e = RETURN_QUIT \<or> reason ?e = RETURN_ERROR"
    by simp_all
  from printable have negative: "reason ?e < 0"
    by (auto simp add: RETURN_QUIT_def RETURN_ERROR_def)
  obtain p s3 where printed: "print_any_exception gdb_stderr None ?e ?sp = (p, s3)"
    by (cases "print_any_exception gdb_stderr None ?e ?sp")
  with print_any_exception_printable [OF printable, of gdb_stderr None ?sp]
  have p: "p = Inr ()"
    by simp
  note stack = entry_thrown(2) [OF assms f]
  have "gdberrmsg_mem s3 = gdberrmsg_mem s2"
    using printed_frame(5) [OF printed] by (simp add: catcher_pop_pushed [OF stack])
  with negative yes printed p
  show "\<exists>s'. catch_exceptions_with_msg uiout' func func_args gdberrmsg mask' s
                    = Some (Inr (reason ?e), s')
                \<and> reason ?e < 0
                \<and> (case gdberrmsg of
                      None \<Rightarrow> gdberrmsg_mem s' = gdberrmsg_mem s2
                    | Some p \<Rightarrow> gdberrmsg_mem s' = (gdberrmsg_mem s2)(p := message ?e)
                        \<and> (\<forall>r' k t. gdberrmsg_mem (snd (throw_it r' k t s')) p = message ?e))"
    unfolding catch_exceptions_with_msg_thrown
      [where func = func and u = uiout' and args = func_args, OF assms f refl]
    by (cases gdberrmsg) (simp_all add: throw_it_gdberrmsg)
next
  fix v s'
  let ?entry = "protected_entry uiout' mask' s"
  assume ret: "catch_exceptions_with_msg uiout' func func_args gdberrmsg mask' s
              = Some (Inr v, s')"
  from well_nested_terminates [OF assms, of ?entry]
  obtain out s2 where res: "func uiout' func_args ?entry = Some (out, s2)"
    by (cases "func uiout' func_args ?entry") auto
  show "(\<exists>s2. func uiout' func_args ?entry = Some (Inr v, s2) \<and> 0 \<le> v)
            \<or> (\<exists>b r s2. func uiout' func_args ?entry = Some (Inl (Longjmp b r), s2)
                  \<and> v = reason (exception_mem s2 (local_exception s)) \<and> v \<le> 0)"
  proof (cases out)
    case (Inr w)
    with res have f: "func uiout' func_args ?entry = Some (Inr w, s2)"
      by simp
    from ret have "w = v \<and> 0 \<le> v"
      unfolding catch_exceptions_with_msg_returned
        [where func = func and u = uiout' and args = func_args, OF assms f]
      by (simp split: if_splits)
    with f show ?thesis
      by blast
  next
    case (Inl x)
    show ?thesis
    proof (cases x)
      case (Longjmp b r)
      with res Inl have f: "func uiout' func_args ?entry = Some (Inl (Longjmp b r), s2)"
        by simp
      let ?e = "exception_mem s2 (local_exception s)"
      from ret have "v = reason ?e \<and> v \<le> 0"
        unfolding catch_exceptions_with_msg_thrown
          [where func = func and u = uiout' and args = func_args, OF assms f refl]
        using throw_exception_Inl [of ?e "snd (catcher_pop s2)"]
        by (auto split: if_splits prod.splits sum.splits option.splits)
      with f show ?thesis
        by blast
    next
      case (Internal_error l t)
      with res Inl catch_exceptions_with_msg_aborted
        [where func = func and u = uiout' and args = func_args and x = x, OF assms] ret
      show ?thesis
        by simp
    next
      case Null_deref
      with res Inl catch_exceptions_with_msg_aborted
        [where func = func and u = uiout' and args = func_args and x = x, OF assms] ret
      show ?thesis
        by simp
    qed
  qed
qed

theorem catch_exceptions_with_msg_result_witness:
  "well_nested (returning (7 :: int))
   \<and> well_nested (throwing (throw_error GENERIC_ERROR ''bad value'') (0 :: int))
   \<and> map_option fst
        (catch_exceptions_with_msg 3 (\<lambda>_ _. returning 7) () None RETURN_MASK_ALL bare_state)
       = Some (Inr 7)
   \<and> map_option fst
        (catch_exceptions_with_msg 3
           (\<lambda>_ _. throwing (throw_error GENERIC_ERROR ''bad value'') 0) () (Some 9)
           RETURN_MASK_ALL bare_state)
       = Some (Inr RETURN_ERROR)
   \<and> map_option (\<lambda>res. gdberrmsg_mem (snd res) 9)
        (catch_exceptions_with_msg 3
           (\<lambda>_ _. throwing (throw_error GENERIC_ERROR ''bad value'') 0) () (Some 9)
           RETURN_MASK_ALL bare_state)
       = Some (Some ''bad value'')
   \<and> map_option (\<lambda>res. (last_message (snd (throw_error GENERIC_ERROR ''other'' (snd res))),
          gdberrmsg_mem (snd (throw_error GENERIC_ERROR ''other'' (snd res))) 9))
        (catch_exceptions_with_msg 3
           (\<lambda>_ _. throwing (throw_error GENERIC_ERROR ''bad value'') 0) () (Some 9)
           RETURN_MASK_ALL bare_state)
       = Some (Some ''other'', Some ''bad value'')"
proof -
  let ?entry = "protected_entry 3 RETURN_MASK_ALL bare_state"
  let ?throw = "throwing (throw_error GENERIC_ERROR ''bad value'') (0 :: int)"
  let ?e = "exception_mem (snd (the (?throw ?entry))) (local_exception bare_state)"
  note wn = well_nested_returning [of "7 :: int"]
    well_nested_throw_error [of GENERIC_ERROR "''bad value''" "0 :: int"]
  have returned: "returning (7 :: int) ?entry = Some (Inr 7, ?entry)"
    by (simp add: returning_def)
  note first = catch_exceptions_with_msg_result [where func = "\<lambda>_ _. returning 7"
      and uiout' = 3 and func_args = "()" and s = bare_state and mask' = RETURN_MASK_ALL
      and gdberrmsg = None, OF wn(1), THEN conjunct1, rule_format, OF returned]
  then have seven: "map_option fst
        (catch_exceptions_with_msg 3 (\<lambda>_ _. returning 7) () None RETURN_MASK_ALL bare_state)
       = Some (Inr 7)"
    by auto
  have thrown: "?throw ?entry = Some (Inl (Longjmp 1 (- 1)), snd (the (?throw ?entry)))"
    and accepted: "and RETURN_MASK_ALL (RETURN_MASK (reason ?e)) \<noteq> 0"
    and an_error: "reason ?e = RETURN_ERROR"
    and its_text: "message ?e = Some ''bad value''"
    by (simp_all add: eval_defs)
  note second = catch_exceptions_with_msg_result [where func = "\<lambda>_ _. ?throw" and uiout' = 3
      and func_args = "()" and s = bare_state and mask' = RETURN_MASK_ALL
      and gdberrmsg = "Some 9", OF wn(2), THEN conjunct2, THEN conjunct1, rule_format,
      OF conjI [OF thrown conjI [OF accepted disjI2 [OF an_error]]]]
  then obtain s' where result: "catch_exceptions_with_msg 3 (\<lambda>_ _. ?throw) () (Some 9)
      RETURN_MASK_ALL bare_state = Some (Inr (reason ?e), s')"
    and slot: "gdberrmsg_mem s' = (gdberrmsg_mem (snd (the (?throw ?entry))))(9 := message ?e)"
    and later: "gdberrmsg_mem (snd (throw_it RETURN_ERROR GENERIC_ERROR ''other'' s')) 9
      = message ?e"
    by auto
  have error: "map_option fst
        (catch_exceptions_with_msg 3 (\<lambda>_ _. ?throw) () (Some 9) RETURN_MASK_ALL bare_state)
       = Some (Inr RETURN_ERROR)"
    unfolding result by (simp add: an_error)
  have copied: "map_option (\<lambda>res. gdberrmsg_mem (snd res) 9)
        (catch_exceptions_with_msg 3 (\<lambda>_ _. ?throw) () (Some 9) RETURN_MASK_ALL bare_state)
       = Some (Some ''bad value'')"
    unfolding result by (simp add: slot its_text)
  have replaced: "last_message (snd (throw_it RETURN_ERROR GENERIC_ERROR ''other'' s'))
      = Some ''other''"
    by (rule throw_it_last_message)
  have independent: "map_option
        (\<lambda>res. (last_message (snd (throw_error GENERIC_ERROR ''other'' (snd res))),
          gdberrmsg_mem (snd (throw_error GENERIC_ERROR ''other'' (snd res))) 9))
        (catch_exceptions_with_msg 3 (\<lambda>_ _. ?throw) () (Some 9) RETURN_MASK_ALL bare_state)
       = Some (Some ''other'', Some ''bad value'')"
    unfolding result by (simp add: throw_error_def later its_text replaced)
  from wn seven error copied independent show ?thesis
    by blast
qed

subsection \<open>Reasons and messages\<close>

text \<open>
  C7, as the code has it. The no-exception value, and the status buffer that
  \<^verbatim>\<open>catcher_init\<close> initialises, have the reason 0 and no message. The exceptions that
  \<^verbatim>\<open>throw_verror\<close>, \<^verbatim>\<open>throw_vfatal\<close> and \<^verbatim>\<open>throw_error\<close> build have a non-zero reason
  and carry the formatted message. The exceptions that \<^verbatim>\<open>throw_reason\<close> builds have a
  non-zero reason and no message: a non-zero reason does not imply a message.
  \<^verbatim>\<open>throw_exception\<close> delivers the exception it is given, unchanged, to the status
  buffer of the top catcher.
\<close>

theorem exceptions_constructed:
  "reason exception_none = 0 \<and> message exception_none = None
   \<and> exception_mem (snd (catcher_init func_uiout a mask' s)) a = exception_none
   \<and> throw_verror k t s
       = throw_exception \<lparr>reason = RETURN_ERROR, error = k, message = Some t\<rparr>
           (s\<lparr>last_message := Some t\<rparr>)
   \<and> throw_vfatal t s
       = throw_exception \<lparr>reason = RETURN_QUIT, error = NO_ERROR, message = Some t\<rparr>
           (s\<lparr>last_message := Some t\<rparr>)
   \<and> throw_error k t s
       = throw_exception \<lparr>reason = RETURN_ERROR, error = k, message = Some t\<rparr>
           (s\<lparr>last_message := Some t\<rparr>)
   \<and> throw_reason RETURN_QUIT s
       = throw_exception \<lparr>reason = RETURN_QUIT, error = NO_ERROR, message = None\<rparr> s
   \<and> throw_reason RETURN_ERROR s
       = throw_exception \<lparr>reason = RETURN_ERROR, error = GENERIC_ERROR, message = None\<rparr> s
   \<and> RETURN_QUIT \<noteq> 0 \<and> RETURN_ERROR \<noteq> 0
   \<and> exception_mem (snd (throw_exception e (on_top s c prev CATCHER_RUNNING))) (exception c) = e
   \<and> exception_mem (snd (throw_exception e (on_top s c prev CATCHER_RUNNING_1))) (exception c) = e"
proof -
  have delivered: "exception_mem (snd (throw_exception e (on_top s c prev st))) (exception c) = e"
    if "st = CATCHER_RUNNING \<or> st = CATCHER_RUNNING_1" for st
    using that
    by (subst throw_exception_running [where c = "c\<lparr>state := st\<rparr>" and prev = prev]) auto
  have built: "reason exception_none = 0 \<and> message exception_none = None
   \<and> exception_mem (snd (catcher_init func_uiout a mask' s)) a = exception_none
   \<and> throw_verror k t s
       = throw_exception \<lparr>reason = RETURN_ERROR, error = k, message = Some t\<rparr>
           (s\<lparr>last_message := Some t\<rparr>)
   \<and> throw_vfatal t s
       = throw_exception \<lparr>reason = RETURN_QUIT, error = NO_ERROR, message = Some t\<rparr>
           (s\<lparr>last_message := Some t\<rparr>)
   \<and> throw_error k t s
       = throw_exception \<lparr>reason = RETURN_ERROR, error = k, message = Some t\<rparr>
           (s\<lparr>last_message := Some t\<rparr>)
   \<and> throw_reason RETURN_QUIT s
       = throw_exception \<lparr>reason = RETURN_QUIT, error = NO_ERROR, message = None\<rparr> s
   \<and> throw_reason RETURN_ERROR s
       = throw_exception \<lparr>reason = RETURN_ERROR, error = GENERIC_ERROR, message = None\<rparr> s
   \<and> RETURN_QUIT \<noteq> 0 \<and> RETURN_ERROR \<noteq> 0"
    by (simp add: exception_none_def catcher_init_eq throw_verror_def throw_vfatal_def
        throw_error_def throw_it_def throw_reason_def Let_def RETURN_QUIT_def RETURN_ERROR_def)
  from built delivered [of CATCHER_RUNNING] delivered [of CATCHER_RUNNING_1] show ?thesis
    by simp
qed

theorem exceptions_constructed_counterexample:
  "reason (exception_mem (snd (throw_reason RETURN_QUIT inside_catcher)) 1) = - 2
   \<and> message (exception_mem (snd (throw_reason RETURN_QUIT inside_catcher)) 1) = None
   \<and> fst (throw_reason RETURN_QUIT inside_catcher) = Inl (Longjmp 1 (- 2))"
  by (simp add: inside_catcher_def eval_defs)

end
